theory Spec2Isabelle
  imports Complex_Main
begin

unbundle bit_operations_syntax

section \<open>Python values used by \<^verbatim>\<open>serial_interface.py\<close>\<close>

text \<open>
  A Python \<^verbatim>\<open>str\<close> is a \<^typ>\<open>string\<close>: a list of code points below 256. Bytes
  are \<^typ>\<open>char\<close> as well. Python integers are \<^typ>\<open>int\<close>. Output written with
  \<^verbatim>\<open>print\<close> is not part of the model.
\<close>

datatype py_error =
  ValueError | IndexError | AttributeError | UnicodeEncodeError
  | PortNotOpenError | SerialException

text \<open>\<^verbatim>\<open>str.isspace\<close> on code points below 256, as used by \<^verbatim>\<open>str.strip()\<close>.\<close>

definition isspace :: "char \<Rightarrow> bool" where
  "isspace c = (let n = (of_char c :: nat) in
     (9 \<le> n \<and> n \<le> 13) \<or> (28 \<le> n \<and> n \<le> 32) \<or> n = 133 \<or> n = 160)"

definition strip :: "string \<Rightarrow> string" where
  "strip s = rev (dropWhile isspace (rev (dropWhile isspace s)))"

text \<open>\<^verbatim>\<open>s.split(d)\<close> for a one-character separator: never an empty list.\<close>

fun split :: "char \<Rightarrow> string \<Rightarrow> string list" where
  "split d [] = [[]]"
| "split d (c # cs) =
     (if c = d then [] # split d cs
      else (case split d cs of
              [] \<Rightarrow> [[c]]
            | p # ps \<Rightarrow> (c # p) # ps))"

text \<open>\<^verbatim>\<open>' '.join(parts)\<close>.\<close>

fun join :: "string list \<Rightarrow> string" where
  "join [] = []"
| "join [p] = p"
| "join (p # q # ps) = p @ CHR '' '' # join (q # ps)"

definition startswith :: "string \<Rightarrow> string \<Rightarrow> bool" where
  "startswith s p = (take (length p) s = p)"

subsection \<open>\<^verbatim>\<open>int(s)\<close> and \<^verbatim>\<open>int(s, 16)\<close>\<close>

text \<open>
  The white space that \<^verbatim>\<open>int()\<close> skips around a number: tab to carriage return and
  the blank, and the two white-space code points between 128 and 255. The separators
  28 to 31 are white space for \<^verbatim>\<open>strip\<close> but not for \<^verbatim>\<open>int\<close>.
\<close>

definition int_space :: "char \<Rightarrow> bool" where
  "int_space c = (let n = (of_char c :: nat) in
     (9 \<le> n \<and> n \<le> 13) \<or> n = 32 \<or> n = 133 \<or> n = 160)"

definition digit_value :: "char \<Rightarrow> nat option" where
  "digit_value c = (let n = (of_char c :: nat) in
     if 48 \<le> n \<and> n \<le> 57 then Some (n - 48)
     else if 97 \<le> n \<and> n \<le> 122 then Some (n - 87)
     else if 65 \<le> n \<and> n \<le> 90 then Some (n - 55)
     else None)"

definition is_digit :: "nat \<Rightarrow> char \<Rightarrow> bool" where
  "is_digit base c = (case digit_value c of None \<Rightarrow> False | Some d \<Rightarrow> d < base)"

definition digit_or_underscore :: "nat \<Rightarrow> char \<Rightarrow> bool" where
  "digit_or_underscore base c = (is_digit base c \<or> c = CHR ''_'')"

text \<open>
  The digits of a number, with single underscores allowed between them. The flag says
  that the character before was an underscore.
\<close>

fun scan_digits :: "nat \<Rightarrow> nat \<Rightarrow> bool \<Rightarrow> string \<Rightarrow> nat option" where
  "scan_digits base acc prev [] = (if prev then None else Some acc)"
| "scan_digits base acc prev (c # cs) =
     (if c = CHR ''_'' then (if prev then None else scan_digits base acc True cs)
      else (case digit_value c of
              None \<Rightarrow> None
            | Some d \<Rightarrow> if d < base then scan_digits base (acc * base + d) False cs else None))"

text \<open>The sign: whether the number is negative, and the text after the sign.\<close>

definition take_sign :: "string \<Rightarrow> bool \<times> string" where
  "take_sign s = (case s of
       [] \<Rightarrow> (False, s)
     | c # r \<Rightarrow> if c = CHR ''+'' then (False, r)
                else if c = CHR ''-'' then (True, r)
                else (False, s))"

text \<open>Base 16 only: an optional \<^verbatim>\<open>0x\<close> or \<^verbatim>\<open>0X\<close>, and one underscore after it.\<close>

definition take_0x :: "string \<Rightarrow> string" where
  "take_0x s = (case s of
       c0 # c1 # r \<Rightarrow>
         if c0 = CHR ''0'' \<and> (c1 = CHR ''x'' \<or> c1 = CHR ''X'')
         then (case r of [] \<Rightarrow> r | u # r' \<Rightarrow> if u = CHR ''_'' then r' else r)
         else s
     | _ \<Rightarrow> s)"

text \<open>
  The interpreter refuses a numeral of more than 4300 digits (the default of
  \<^verbatim>\<open>sys.get_int_max_str_digits()\<close>; underscores do not count, leading zeros do).
  Base 16 is exempt.
\<close>

definition max_str_digits :: nat where
  "max_str_digits = 4300"

text \<open>\<^verbatim>\<open>int(s, base)\<close> for base 10 and 16; \<open>None\<close> is the \<^verbatim>\<open>ValueError\<close>.\<close>

definition py_int :: "nat \<Rightarrow> string \<Rightarrow> int option" where
  "py_int base s =
     (let (neg, s2) = take_sign (dropWhile int_space s);
          s3 = (if base = 16 then take_0x s2 else s2);
          body = takeWhile (digit_or_underscore base) s3;
          rest = dropWhile (digit_or_underscore base) s3
      in if body = [] \<or> take 1 body = ''_'' \<or> \<not> list_all int_space rest then None
         else if base \<noteq> 16 \<and> max_str_digits < length (filter (is_digit base) body) then None
         else (case scan_digits base 0 False body of
                 None \<Rightarrow> None
               | Some n \<Rightarrow> Some (if neg then - int n else int n)))"

subsection \<open>\<^verbatim>\<open>f"{n:X}"\<close>\<close>

definition hex_char :: "nat \<Rightarrow> char" where
  "hex_char d = ''0123456789ABCDEF'' ! d"

fun hex_nat :: "nat \<Rightarrow> string" where
  "hex_nat n = (if n < 16 then [hex_char n] else hex_nat (n div 16) @ [hex_char (n mod 16)])"

definition format_X :: "int \<Rightarrow> string" where
  "format_X n = (if n < 0 then CHR ''-'' # hex_nat (nat (- n)) else hex_nat (nat n))"

section \<open>Chord codec\<close>

text \<open>
  \<^verbatim>\<open>_parse_chord_actions\<close>: the loop over \<^verbatim>\<open>range(12)\<close> is a fold with the list
  \<^verbatim>\<open>actions\<close> as its state; \<^verbatim>\<open>actions[::-1]\<close> is \<^const>\<open>rev\<close>. The only exception
  the body can raise is the \<^verbatim>\<open>ValueError\<close> of \<^verbatim>\<open>int\<close>, which the handler turns into
  the empty list.
\<close>

definition actions_step :: "int \<Rightarrow> nat \<Rightarrow> int list \<Rightarrow> int list" where
  "actions_step v i actions =
     (let action = drop_bit (i * 10) v AND 0x3FF
      in if action \<noteq> 0 then actions @ [action] else actions)"

definition parse_chord_actions :: "string \<Rightarrow> py_error + int list" where
  "parse_chord_actions hex_str =
     (case py_int 16 hex_str of
        None \<Rightarrow> Inr []
      | Some v \<Rightarrow> Inr (rev (fold (actions_step v) [0..<12] [])))"

text \<open>
  \<^verbatim>\<open>_parse_phrase\<close>. The inner \<^verbatim>\<open>for length in [4, 3, 2]\<close> either breaks with a value
  and the width it read, or runs to its \<^verbatim>\<open>else\<close>. The slice
  \<^verbatim>\<open>hex_str[i:i+length]\<close> is \<open>take length (drop i hex_str)\<close>.
\<close>

fun try_lengths :: "string \<Rightarrow> nat \<Rightarrow> nat list \<Rightarrow> (int \<times> nat) option" where
  "try_lengths hex_str i [] = None"
| "try_lengths hex_str i (len # lens) =
     (if i + len \<le> length hex_str then
        (case py_int 16 (take len (drop i hex_str)) of
           Some val \<Rightarrow> Some (val, len)
         | None \<Rightarrow> try_lengths hex_str i lens)
      else try_lengths hex_str i lens)"

lemma try_lengths_width:
  "try_lengths hex_str i lens = Some (val, len) \<Longrightarrow> len \<in> set lens"
  by (induction lens) (auto split: if_splits option.splits)

function phrase_loop :: "string \<Rightarrow> nat \<Rightarrow> int list \<Rightarrow> int list" where
  "phrase_loop hex_str i phrase =
     (if i < length hex_str then
        (case try_lengths hex_str i [4, 3, 2] of
           Some (val, len) \<Rightarrow> phrase_loop hex_str (i + len) (phrase @ [val])
         | None \<Rightarrow> phrase_loop hex_str (i + 1) phrase)
      else phrase)"
  by pat_completeness auto
termination
proof (relation "measure (\<lambda>(hex_str, i, phrase). length hex_str - i)")
  show "wf (measure (\<lambda>(hex_str, i, phrase). length hex_str - i))"
    by simp
next
  fix hex_str :: string and i :: nat and phrase :: "int list" and x2 val len
  assume "i < length hex_str" "try_lengths hex_str i [4, 3, 2] = Some x2" "(val, len) = x2"
  then have "len \<in> set [4, 3, 2 :: nat]"
    using try_lengths_width [of hex_str i "[4, 3, 2]" val len] by simp
  then have "0 < len" by auto
  with \<open>i < length hex_str\<close>
  show "((hex_str, i + len, phrase @ [val]), (hex_str, i, phrase))
        \<in> measure (\<lambda>(hex_str, i, phrase). length hex_str - i)"
    by simp
next
  fix hex_str :: string and i :: nat and phrase :: "int list"
  assume "i < length hex_str" "try_lengths hex_str i [4, 3, 2] = None"
  then show "((hex_str, i + 1, phrase), (hex_str, i, phrase))
        \<in> measure (\<lambda>(hex_str, i, phrase). length hex_str - i)"
    by simp
qed

definition parse_phrase :: "string \<Rightarrow> py_error + int list" where
  "parse_phrase hex_str = Inr (phrase_loop hex_str 0 [])"

section \<open>Transport\<close>

text \<open>
  The serial port as the polling loop of \<^verbatim>\<open>_read_line\<close> sees it. Each entry of
  \<open>wire\<close> is one pass of the loop: the reading of \<^verbatim>\<open>time.time()\<close> at the loop
  test, then what the pass finds: nothing waiting (\<open>Idle\<close>), the byte that
  \<^verbatim>\<open>read(1)\<close> returns, or a failure of the port (\<open>Fault\<close>: \<^verbatim>\<open>in_waiting\<close> or
  \<^verbatim>\<open>read\<close> raises). When \<open>wire\<close> is used up nothing arrives any more and the clock is
  past every deadline. \<open>written\<close> collects the bytes given to \<^verbatim>\<open>write\<close>;
  \<^verbatim>\<open>write\<close> on a closed port raises.
\<close>

datatype poll = Idle | Byte char | Fault

record serial_port =
  is_open :: bool
  timeout :: "real option"
  wire :: "(real \<times> poll) list"
  written :: "char list"

record CharaDevice =
  serial :: serial_port
  version :: "string option"
  company :: "string option"
  device :: "string option"
  chipset :: "string option"
  key_count :: "int option"
  layer_count :: int
  profile_count :: int

text \<open>\<^verbatim>\<open>CharaDevice.__init__\<close>, on the port that \<^verbatim>\<open>serial.Serial\<close> opened.\<close>

definition CharaDevice_init :: "(real \<times> poll) list \<Rightarrow> CharaDevice" where
  "CharaDevice_init w =
     \<lparr>serial = \<lparr>is_open = True, timeout = Some 2, wire = w, written = []\<rparr>,
      version = None, company = None, device = None, chipset = None,
      key_count = None, layer_count = 3, profile_count = 1\<rparr>"

definition ascii :: "char \<Rightarrow> bool" where
  "ascii c = ((of_char c :: nat) < 128)"

text \<open>\<^verbatim>\<open>_send_raw\<close>: \<^verbatim>\<open>encode('ascii')\<close> raises on a code point above 127.\<close>

definition send_raw :: "CharaDevice \<Rightarrow> string \<Rightarrow> (py_error + unit) \<times> CharaDevice" where
  "send_raw self command =
     (let cmd = command @ [CHR 0x0D, CHR 0x0A]
      in if \<not> list_all ascii cmd then (Inl UnicodeEncodeError, self)
         else if \<not> is_open (serial self) then (Inl PortNotOpenError, self)
         else (Inr (), self\<lparr>serial := (serial self)\<lparr>written := written (serial self) @ cmd\<rparr>\<rparr>))"

text \<open>
  The loop of \<^verbatim>\<open>_read_line\<close>. It returns the line (or \<open>None\<close> at the deadline) and
  the part of the wire it has not looked at. \<^verbatim>\<open>decode('ascii', errors='ignore')\<close>
  drops the bytes above 127. After a line feed on a blank buffer the loop goes on with
  the buffer as it is.
\<close>

fun read_loop ::
  "real \<Rightarrow> real \<Rightarrow> char list \<Rightarrow> (real \<times> poll) list
   \<Rightarrow> (py_error + string option) \<times> (real \<times> poll) list" where
  "read_loop start_time tmo buffer [] = (Inr None, [])"
| "read_loop start_time tmo buffer ((now, p) # w) =
     (if \<not> (now - start_time < tmo) then (Inr None, (now, p) # w)
      else (case p of
              Idle \<Rightarrow> read_loop start_time tmo buffer w
            | Fault \<Rightarrow> (Inl SerialException, w)
            | Byte char \<Rightarrow>
                if char = CHR 0x0A then
                  (let line = strip (filter ascii buffer)
                   in if line \<noteq> [] then (Inr (Some line), w)
                      else read_loop start_time tmo buffer w)
                else if char = CHR 0x0D then read_loop start_time tmo buffer w
                else read_loop start_time tmo (buffer @ [char]) w))"

text \<open>
  \<^verbatim>\<open>_read_line\<close>: \<^verbatim>\<open>start_time\<close> is the clock reading of the first pass.
\<close>

definition read_line :: "CharaDevice \<Rightarrow> real \<Rightarrow> (py_error + string option) \<times> CharaDevice" where
  "read_line self tmo =
     (let w = wire (serial self);
          start_time = (case w of [] \<Rightarrow> 0 | (now, p) # r \<Rightarrow> now);
          (res, w') = read_loop start_time tmo [] w
      in (res, self\<lparr>serial := (serial self)\<lparr>wire := w'\<rparr>\<rparr>))"

section \<open>Command and response\<close>

text \<open>
  The check of the reply in \<^verbatim>\<open>send_command\<close>, from \<^verbatim>\<open>response.split(' ')\<close> on.
  \<^verbatim>\<open>command_parts[0]\<close> on an empty list raises \<^verbatim>\<open>IndexError\<close>; \<open>parts\<close> is never
  empty.
\<close>

definition check_response :: "string list \<Rightarrow> string \<Rightarrow> py_error + string list" where
  "check_response command_parts response =
     (let parts = split CHR '' '' response
      in if command_parts = [] then Inl IndexError
         else if length parts \<ge> 1 \<and> parts ! 0 = command_parts ! 0 then
           (if length command_parts > 1 \<and> length parts > 1 then
              (if parts ! 1 = command_parts ! 1
               then Inr (if length parts > 2 then drop 2 parts else [])
               else Inr [])
            else Inr (if length parts > 1 then drop 1 parts else []))
         else if startswith response ''UKN'' then Inr []
         else Inr [])"

definition send_command ::
  "CharaDevice \<Rightarrow> string list \<Rightarrow> real \<Rightarrow> (py_error + string list) \<times> CharaDevice" where
  "send_command self command_parts tmo =
     (let command = join command_parts
      in case send_raw self command of
           (Inl e, self1) \<Rightarrow> (Inl e, self1)
         | (Inr u, self1) \<Rightarrow>
             (case read_line self1 tmo of
                (Inl e, self2) \<Rightarrow> (Inl e, self2)
              | (Inr None, self2) \<Rightarrow> (Inr [], self2)
              | (Inr (Some response), self2) \<Rightarrow> (check_response command_parts response, self2)))"

section \<open>Capabilities\<close>

text \<open>
  \<^verbatim>\<open>_version_gte\<close>. \<open>component xs i\<close> is \<^verbatim>\<open>int(xs[i]) if i < len(xs) else 0\<close>, with
  \<open>None\<close> for the \<^verbatim>\<open>ValueError\<close>. The loop over \<^verbatim>\<open>range(3)\<close> returns at the first
  index that decides; the bare \<^verbatim>\<open>except\<close> turns every exception into \<^verbatim>\<open>False\<close>,
  also the \<^verbatim>\<open>AttributeError\<close> of \<^verbatim>\<open>None.split\<close>.
\<close>

definition component :: "string list \<Rightarrow> nat \<Rightarrow> int option" where
  "component xs i = (if i < length xs then py_int 10 (xs ! i) else Some 0)"

fun gte_loop :: "string list \<Rightarrow> string list \<Rightarrow> nat list \<Rightarrow> bool" where
  "gte_loop current target [] = True"
| "gte_loop current target (i # rest) =
     (case component current i of
        None \<Rightarrow> False
      | Some c \<Rightarrow>
          (case component target i of
             None \<Rightarrow> False
           | Some t \<Rightarrow> if c > t then True
                       else if c < t then False
                       else gte_loop current target rest))"

definition numeric_prefix :: "string \<Rightarrow> string list" where
  "numeric_prefix v = split CHR ''.'' (hd (split CHR ''-'' v))"

definition version_gte :: "CharaDevice \<Rightarrow> string \<Rightarrow> bool" where
  "version_gte self target_version =
     (case version self of
        None \<Rightarrow> False
      | Some v \<Rightarrow> gte_loop (numeric_prefix v) (numeric_prefix target_version) [0..<3])"

definition key_counts :: "string \<rightharpoonup> int" where
  "key_counts = map_of
     [(''ONE'', 90), (''TWO'', 90), (''LITE'', 67), (''X'', 256), (''ENGINE'', 256),
      (''M4G'', 90), (''M4GR'', 90), (''T4G'', 7), (''ZERO'', 256)]"

text \<open>The truth value of an optional string: neither \<^verbatim>\<open>None\<close> nor empty.\<close>

definition truthy :: "string option \<Rightarrow> bool" where
  "truthy v = (case v of None \<Rightarrow> False | Some s \<Rightarrow> s \<noteq> [])"

text \<open>The body of \<^verbatim>\<open>if id_response and len(id_response) >= 3\<close> in \<^verbatim>\<open>init\<close>.\<close>

definition set_identity :: "CharaDevice \<Rightarrow> string list \<Rightarrow> CharaDevice" where
  "set_identity self id_response =
     (let self1 = self\<lparr>company := Some (id_response ! 0),
                       device := Some (id_response ! 1),
                       chipset := Some (id_response ! 2)\<rparr>;
          self2 = self1\<lparr>key_count :=
                    Some (case key_counts (id_response ! 1) of None \<Rightarrow> 90 | Some k \<Rightarrow> k)\<rparr>;
          self3 = (if truthy (version self2) \<and> version_gte self2 ''2.2.0-beta.4''
                   then self2\<lparr>profile_count := (if chipset self2 = Some ''M0'' then 2 else 3)\<rparr>
                   else self2);
          self4 = (if truthy (version self3) \<and> version_gte self3 ''2.2.0-beta.20''
                   then self3\<lparr>layer_count := (if chipset self3 = Some ''M0'' then 3 else 4)\<rparr>
                   else self3)
      in self4)"

text \<open>
  \<^verbatim>\<open>init\<close>: \<^verbatim>\<open>return True\<close> ends the \<^verbatim>\<open>try\<close> block whatever the two replies were;
  \<^verbatim>\<open>False\<close> is returned by the exception handler only. Fields assigned before an
  exception keep their new values.
\<close>

definition init :: "CharaDevice \<Rightarrow> bool \<times> CharaDevice" where
  "init self =
     (case send_command self [''VERSION''] 2 of
        (Inl e, self1) \<Rightarrow> (False, self1)
      | (Inr version_response, self1) \<Rightarrow>
          (let self2 = (if version_response \<noteq> []
                        then self1\<lparr>version := Some (join version_response)\<rparr>
                        else self1)
           in case send_command self2 [''ID''] 2 of
                (Inl e, self3) \<Rightarrow> (False, self3)
              | (Inr id_response, self3) \<Rightarrow>
                  if id_response \<noteq> [] \<and> length id_response \<ge> 3
                  then (True, set_identity self3 id_response)
                  else (True, self3)))"

section \<open>Queries\<close>

definition get_setting ::
  "CharaDevice \<Rightarrow> int \<Rightarrow> int \<Rightarrow> (py_error + int option) \<times> CharaDevice" where
  "get_setting self profile setting_id =
     (let full_id = setting_id + profile * 0x100
      in case send_command self [''VAR'', ''B1'', format_X full_id] 2 of
           (Inl e, self1) \<Rightarrow> (Inl e, self1)
         | (Inr response, self1) \<Rightarrow>
             if response \<noteq> [] \<and> length response \<ge> 2 then
               (if response ! 1 = ''0'' then
                  (case py_int 10 (response ! 0) of
                     Some n \<Rightarrow> (Inr (Some n), self1)
                   | None \<Rightarrow> (Inr None, self1))
                else (Inr None, self1))
             else (Inr None, self1))"

text \<open>
  \<^verbatim>\<open>query_key\<close>. \<^verbatim>\<open>timeout if timeout else 10.0\<close> is \<open>read_window\<close>: ten seconds when
  the argument is \<^verbatim>\<open>None\<close> or zero. The port refuses a negative timeout: the
  assignment to \<^verbatim>\<open>self.serial.timeout\<close> raises \<^verbatim>\<open>ValueError\<close> before anything is
  sent. The \<^verbatim>\<open>finally\<close> clause sets the port's timeout back on every path, also when
  an exception passes through.
\<close>

definition bad_timeout :: "real option \<Rightarrow> bool" where
  "bad_timeout tmo = (case tmo of None \<Rightarrow> False | Some t \<Rightarrow> t < 0)"

definition read_window :: "real option \<Rightarrow> real" where
  "read_window tmo = (case tmo of None \<Rightarrow> 10 | Some t \<Rightarrow> if t = 0 then 10 else t)"

definition key_of_response :: "string option \<Rightarrow> int option" where
  "key_of_response response =
     (case response of
        None \<Rightarrow> None
      | Some r \<Rightarrow>
          if r = [] then None
          else (let parts = split CHR '' '' r
                in if length parts \<ge> 3 \<and> parts ! 0 = ''QRY'' \<and> parts ! 1 = ''KEY''
                   then py_int 10 (parts ! 2)
                   else None))"

definition query_key ::
  "CharaDevice \<Rightarrow> real option \<Rightarrow> (py_error + int option) \<times> CharaDevice" where
  "query_key self tmo =
     (let (res, self3) =
            (if bad_timeout tmo then (Inl ValueError, self)
             else (case send_raw (self\<lparr>serial := (serial self)\<lparr>timeout := tmo\<rparr>\<rparr>) ''QRY KEY'' of
               (Inl e, self1) \<Rightarrow> (Inl e, self1)
             | (Inr u, self1) \<Rightarrow>
                 (case read_line self1 (read_window tmo) of
                    (Inl e, self2) \<Rightarrow> (Inl e, self2)
                  | (Inr response, self2) \<Rightarrow> (Inr (key_of_response response), self2))))
      in (res, self3\<lparr>serial := (serial self3)\<lparr>timeout := Some 2\<rparr>\<rparr>))"

section \<open>Descriptions taken from the specification\<close>

text \<open>
  The reference encoder of the round-trip property, as the specification words it; the
  repository has a decoder only. Each code takes a 10-bit field; the last code of the
  program is in the least significant bits; the word is rendered in hexadecimal.
\<close>

fun pack_fields :: "int list \<Rightarrow> int" where
  "pack_fields [] = 0"
| "pack_fields (a # rest) = a + 1024 * pack_fields rest"

definition encode_actions :: "int list \<Rightarrow> string" where
  "encode_actions actions = format_X (pack_fields (rev actions))"

text \<open>A plain hexadecimal numeral and its unsigned value.\<close>

definition hex_numeral :: "string \<Rightarrow> bool" where
  "hex_numeral s = (s \<noteq> [] \<and> list_all (is_digit 16) s)"

definition hex_value :: "string \<Rightarrow> int" where
  "hex_value s = int (foldl (\<lambda>acc c. acc * 16 + the (digit_value c)) 0 s)"

text \<open>
  The phrase decoder as the specification words it: at each position the first of a
  4-digit, a 3-digit and a 2-digit token that is valid hex, that is a token of hexadecimal
  digits, read as an unsigned number; else one character further.
\<close>

fun decode_phrase :: "string \<Rightarrow> int list" where
  "decode_phrase s =
     (if s = [] then []
      else if 4 \<le> length s \<and> hex_numeral (take 4 s)
        then hex_value (take 4 s) # decode_phrase (drop 4 s)
      else if 3 \<le> length s \<and> hex_numeral (take 3 s)
        then hex_value (take 3 s) # decode_phrase (drop 3 s)
      else if 2 \<le> length s \<and> hex_numeral (take 2 s)
        then hex_value (take 2 s) # decode_phrase (drop 2 s)
      else decode_phrase (drop 1 s))"

text \<open>
  The same scan where a token is valid when \<^verbatim>\<open>int(token, 16)\<close> accepts it, with the
  value \<^verbatim>\<open>int\<close> gives: a sign, a prefix \<^verbatim>\<open>0x\<close>, underscores between digits and white
  space around the number then count as part of a token.
\<close>

fun greedy_phrase :: "string \<Rightarrow> int list" where
  "greedy_phrase s =
     (if s = [] then []
      else if 4 \<le> length s \<and> py_int 16 (take 4 s) \<noteq> None
        then the (py_int 16 (take 4 s)) # greedy_phrase (drop 4 s)
      else if 3 \<le> length s \<and> py_int 16 (take 3 s) \<noteq> None
        then the (py_int 16 (take 3 s)) # greedy_phrase (drop 3 s)
      else if 2 \<le> length s \<and> py_int 16 (take 2 s) \<noteq> None
        then the (py_int 16 (take 2 s)) # greedy_phrase (drop 2 s)
      else greedy_phrase (drop 1 s))"

text \<open>The characters that a token accepted by \<^verbatim>\<open>int(token, 16)\<close> can hold.\<close>

definition token_char :: "char \<Rightarrow> bool" where
  "token_char c = (is_digit 16 c \<or> c \<in> set ''+-_xX'' \<or> int_space c)"

text \<open>The twelve 10-bit fields of a word, the nonzero ones, last field first.\<close>

definition action_fields :: "int \<Rightarrow> int list" where
  "action_fields v = rev (filter (\<lambda>a. a \<noteq> 0) (map (\<lambda>i. (v div 2 ^ (10 * i)) mod 1024) [0..<12]))"

section \<open>Wires and sessions for the examples\<close>

text \<open>The bytes of \<open>s\<close> found by successive passes, all at clock reading \<open>t\<close>.\<close>

definition arrive :: "real \<Rightarrow> string \<Rightarrow> (real \<times> poll) list" where
  "arrive t s = map (\<lambda>c. (t, Byte c)) s"

text \<open>A session whose version field holds \<open>v\<close>, everything else as after construction.\<close>

definition with_version :: "string \<Rightarrow> CharaDevice" where
  "with_version v = (CharaDevice_init [])\<lparr>version := Some v\<rparr>"

text \<open>The line \<open>s\<close> with its terminator, arriving at clock reading \<open>t\<close>.\<close>

definition reply :: "real \<Rightarrow> string \<Rightarrow> (real \<times> poll) list" where
  "reply t s = arrive t (s @ [CHR 0x0D, CHR 0x0A])"

declare hex_nat.simps [simp del]
declare phrase_loop.simps [simp del]
declare decode_phrase.simps [simp del]
declare greedy_phrase.simps [simp del]

section \<open>The line reader\<close>

lemma read_loop_not_blank: "fst (read_loop start tmo buffer w) \<noteq> Inr (Some [])"
  by (induction start tmo buffer w rule: read_loop.induct) (auto simp: Let_def split: poll.splits)

lemma read_line_not_blank: "fst (read_line self tmo) \<noteq> Inr (Some [])"
proof -
  have "fst (read_line self tmo) =
        fst (read_loop (case wire (serial self) of [] \<Rightarrow> 0 | (now, p) # r \<Rightarrow> now) tmo []
               (wire (serial self)))"
    by (simp add: read_line_def Let_def split: prod.splits)
  then show ?thesis
    by (simp add: read_loop_not_blank)
qed

text \<open>
  C10: \<^verbatim>\<open>_read_line\<close> never returns an empty line. A line feed that arrives while the
  buffer decodes and strips to nothing is skipped: reading goes on with the same start
  time, the same timeout and the same buffer, so a blank line on the wire does not reach
  \<^verbatim>\<open>send_command\<close>.
\<close>

theorem read_line_no_blank_line:
  "fst (read_line self tmo) \<noteq> Inr (Some [])
   \<and> fst (read_loop start tmo buffer w) \<noteq> Inr (Some [])
   \<and> (now - start < tmo \<and> strip (filter ascii buffer) = [] \<longrightarrow>
        read_loop start tmo buffer ((now, Byte (CHR 0x0A)) # w) = read_loop start tmo buffer w)"
  by (simp add: read_line_not_blank read_loop_not_blank)

theorem read_line_no_blank_line_witness:
  "((1::real) - 0 < 2 \<and> strip (filter ascii [CHR '' '']) = [])
   \<and> read_loop 0 2 [CHR '' ''] ((1, Byte (CHR 0x0A)) # arrive 1 (''OK'' @ [CHR 0x0A]))
       = read_loop 0 2 [CHR '' ''] (arrive 1 (''OK'' @ [CHR 0x0A]))
   \<and> read_loop 0 2 [CHR '' ''] (arrive 1 (''OK'' @ [CHR 0x0A])) = (Inr (Some ''OK''), [])"
proof -
  have h: "(1::real) - 0 < 2 \<and> strip (filter ascii [CHR '' '']) = []"
    by (simp add: strip_def ascii_def isspace_def)
  have e: "read_loop 0 2 [CHR '' ''] (arrive 1 (''OK'' @ [CHR 0x0A])) = (Inr (Some ''OK''), [])"
    by (simp add: arrive_def strip_def ascii_def isspace_def)
  from read_line_no_blank_line
    [of "CharaDevice_init []" 2 0 "[CHR '' '']" "arrive 1 (''OK'' @ [CHR 0x0A])" 1] h e
  show ?thesis by blast
qed

section \<open>The action word\<close>

lemma is_digit16_plain:
  "is_digit 16 c \<Longrightarrow> \<not> int_space c \<and> c \<noteq> CHR ''+'' \<and> c \<noteq> CHR ''-'' \<and> c \<noteq> CHR ''_''
     \<and> c \<noteq> CHR ''x'' \<and> c \<noteq> CHR ''X''"
  by (auto simp: is_digit_def digit_value_def int_space_def Let_def split: if_splits)

lemma is_digit_value: "is_digit b c \<Longrightarrow> \<exists>d. digit_value c = Some d \<and> d < b"
  by (auto simp: is_digit_def split: option.splits)

lemma scan_digits_plain:
  "list_all (is_digit 16) xs \<Longrightarrow> xs \<noteq> [] \<or> \<not> p \<Longrightarrow>
   scan_digits 16 acc p xs = Some (foldl (\<lambda>a c. a * 16 + the (digit_value c)) acc xs)"
proof (induction xs arbitrary: acc p)
  case Nil
  then show ?case by simp
next
  case (Cons c cs)
  from Cons.prems have c: "is_digit 16 c" and cs: "list_all (is_digit 16) cs" by simp_all
  from c obtain d where d: "digit_value c = Some d" "d < 16"
    using is_digit_value by blast
  from c have nu: "c \<noteq> CHR ''_''" using is_digit16_plain by blast
  have "scan_digits 16 acc p (c # cs) = scan_digits 16 (acc * 16 + d) False cs"
    using d nu by simp
  also have "\<dots> = Some (foldl (\<lambda>a c. a * 16 + the (digit_value c)) (acc * 16 + d) cs)"
    by (rule Cons.IH [OF cs]) simp
  finally show ?case using d by simp
qed

lemma py_int_hex_numeral:
  assumes "hex_numeral s"
  shows "py_int 16 s = Some (hex_value s)"
proof -
  from assms obtain c cs where s: "s = c # cs" and all: "list_all (is_digit 16) s"
    by (cases s) (auto simp: hex_numeral_def)
  from all s have c: "is_digit 16 c" by simp
  note p = is_digit16_plain [OF c]
  have d1: "dropWhile int_space s = s" using s p by simp
  have d2: "take_sign s = (False, s)" using s p by (simp add: take_sign_def)
  have d3: "take_0x s = s"
  proof (cases cs)
    case Nil
    then show ?thesis using s by (simp add: take_0x_def)
  next
    case (Cons c1 r)
    with all s have "is_digit 16 c1" by simp
    from is_digit16_plain [OF this] show ?thesis using s Cons by (simp add: take_0x_def)
  qed
  have dig: "\<forall>x\<in>set s. digit_or_underscore 16 x"
    using all by (auto simp: digit_or_underscore_def list_all_iff)
  have d4: "takeWhile (digit_or_underscore 16) s = s" using dig by (simp add: takeWhile_eq_all_conv)
  have d5: "dropWhile (digit_or_underscore 16) s = []" using dig by simp
  have d6: "take 1 s \<noteq> ''_''" using s p by simp
  have d7: "scan_digits 16 0 False s = Some (foldl (\<lambda>a c. a * 16 + the (digit_value c)) 0 s)"
    by (rule scan_digits_plain [OF all]) simp
  show ?thesis
    unfolding py_int_def d1 d2 using d3 d4 d5 d6 d7 s
    by (simp add: hex_value_def)
qed

lemma hex_char_value:
  assumes "d < 16"
  shows "digit_value (hex_char d) = Some d"
proof -
  from assms have "d = 0 \<or> d = 1 \<or> d = 2 \<or> d = 3 \<or> d = 4 \<or> d = 5 \<or> d = 6 \<or> d = 7
      \<or> d = 8 \<or> d = 9 \<or> d = 10 \<or> d = 11 \<or> d = 12 \<or> d = 13 \<or> d = 14 \<or> d = 15"
    by arith
  then show ?thesis
    by (elim disjE) (simp_all add: hex_char_def digit_value_def)
qed

lemma hex_char_digit: "d < 16 \<Longrightarrow> is_digit 16 (hex_char d)"
  by (simp add: is_digit_def hex_char_value)

lemma hex_nat_numeral: "hex_numeral (hex_nat n)"
proof (induction n rule: hex_nat.induct)
  case (1 n)
  show ?case
  proof (cases "n < 16")
    case True
    then show ?thesis by (simp add: hex_nat.simps [of n] hex_numeral_def hex_char_digit)
  next
    case False
    with 1 show ?thesis by (simp add: hex_nat.simps [of n] hex_numeral_def hex_char_digit)
  qed
qed

lemma hex_nat_value: "hex_value (hex_nat n) = int n"
proof (induction n rule: hex_nat.induct)
  case (1 n)
  show ?case
  proof (cases "n < 16")
    case True
    then show ?thesis by (simp add: hex_nat.simps [of n] hex_value_def hex_char_value)
  next
    case False
    with 1 have "foldl (\<lambda>a c. a * 16 + the (digit_value c)) 0 (hex_nat (n div 16)) = n div 16"
      by (simp add: hex_value_def)
    with False show ?thesis
      by (simp add: hex_nat.simps [of n] hex_value_def hex_char_value)
  qed
qed

lemma py_int_hex_nat: "py_int 16 (hex_nat n) = Some (int n)"
  using py_int_hex_numeral [OF hex_nat_numeral] by (simp add: hex_nat_value)

lemma field_arith: "drop_bit (i * 10) v AND 0x3FF = (v div 2 ^ (10 * i)) mod 1024" for v :: int
proof -
  have "(0x3FF :: int) = mask 10" by (simp add: mask_eq_exp_minus_1)
  then have "drop_bit (i * 10) v AND 0x3FF = take_bit 10 (drop_bit (i * 10) v)"
    by (simp add: take_bit_eq_mask)
  then show ?thesis
    by (simp add: take_bit_eq_mod drop_bit_eq_div mult.commute)
qed

lemma fold_actions_step:
  "fold (actions_step v) idx acc
     = acc @ filter (\<lambda>a. a \<noteq> 0) (map (\<lambda>i. (v div 2 ^ (10 * i)) mod 1024) idx)"
  by (induction idx arbitrary: acc) (simp_all add: actions_step_def Let_def field_arith)

lemma parse_chord_actions_fields:
  "parse_chord_actions s = Inr (case py_int 16 s of None \<Rightarrow> [] | Some v \<Rightarrow> action_fields v)"
  by (simp add: parse_chord_actions_def fold_actions_step action_fields_def split: option.splits)


lemma pack_fields_nonneg: "list_all (\<lambda>a. 0 \<le> a) r \<Longrightarrow> 0 \<le> pack_fields r"
  by (induction r) simp_all

lemma pack_fields_split:
  fixes a p :: int
  assumes "0 \<le> a" "a < 1024"
  shows "(a + 1024 * p) mod 1024 = a" and "(a + 1024 * p) div 2 ^ (10 * Suc i) = p div 2 ^ (10 * i)"
proof -
  show "(a + 1024 * p) mod 1024 = a" using assms by simp
  have "(a + 1024 * p) div 2 ^ (10 * Suc i) = (a + 1024 * p) div (1024 * 2 ^ (10 * i))"
    by (simp add: power_add)
  also have "\<dots> = (a + 1024 * p) div 1024 div 2 ^ (10 * i)"
    by (rule zdiv_zmult2_eq) simp
  also have "(a + 1024 * p) div 1024 = p" using assms by simp
  finally show "(a + 1024 * p) div 2 ^ (10 * Suc i) = p div 2 ^ (10 * i)" .
qed

lemma map_fields_pack:
  "list_all (\<lambda>a. 0 \<le> a \<and> a < 1024) r \<Longrightarrow> length r \<le> n \<Longrightarrow>
   map (\<lambda>i. (pack_fields r div 2 ^ (10 * i)) mod 1024) [0..<n] = r @ replicate (n - length r) 0"
proof (induction r arbitrary: n)
  case Nil
  show ?case by (simp add: map_replicate_const)
next
  case (Cons a r)
  from Cons.prems obtain m where n: "n = Suc m" by (cases n) auto
  from Cons.prems have a: "0 \<le> a" "a < 1024" and r: "list_all (\<lambda>a. 0 \<le> a \<and> a < 1024) r"
    by simp_all
  from Cons.prems n have len: "length r \<le> m" by simp
  have "[0..<Suc m] = 0 # map Suc [0..<m]"
    by (simp add: upt_conv_Cons map_Suc_upt del: upt_Suc)
  then have "map (\<lambda>i. (pack_fields (a # r) div 2 ^ (10 * i)) mod 1024) [0..<Suc m]
      = a # map (\<lambda>i. (pack_fields r div 2 ^ (10 * i)) mod 1024) [0..<m]"
    using pack_fields_split [OF a, of "pack_fields r"]
    by (simp add: comp_def del: upt_Suc)
  with Cons.IH [OF r len] n show ?case by simp
qed

lemma fields_pack:
  assumes "list_all (\<lambda>a. 1 \<le> a \<and> a \<le> 1023) r" "length r \<le> 12"
  shows "action_fields (pack_fields r) = rev r"
proof -
  from assms(1) have b: "list_all (\<lambda>a. 0 \<le> a \<and> a < 1024) r"
    by (induction r) auto
  from assms(1) have nz: "filter (\<lambda>a. a \<noteq> 0) r = r"
    by (induction r) auto
  show ?thesis
    unfolding action_fields_def map_fields_pack [OF b assms(2)]
    by (simp add: nz)
qed

text \<open>
  C7: a list of at most 12 action codes, each from 1 to 1023, packed by the reference
  encoder (10 bits a code, the last code of the program in the least significant bits,
  rendered in hexadecimal) and given to \<^verbatim>\<open>_parse_chord_actions\<close>, comes back unchanged.
\<close>

theorem encode_decode_actions:
  assumes "length actions \<le> 12" and "list_all (\<lambda>a. 1 \<le> a \<and> a \<le> 1023) actions"
  shows "parse_chord_actions (encode_actions actions) = Inr actions"
proof -
  let ?v = "pack_fields (rev actions)"
  from assms(2) have r: "list_all (\<lambda>a. 1 \<le> a \<and> a \<le> 1023) (rev actions)"
    by (simp add: list_all_iff)
  then have "list_all (\<lambda>a. 0 \<le> a) (rev actions)"
    by (auto simp: list_all_iff)
  then have nn: "0 \<le> ?v" by (rule pack_fields_nonneg)
  then have "py_int 16 (encode_actions actions) = Some ?v"
    by (simp add: encode_actions_def format_X_def py_int_hex_nat)
  then have "parse_chord_actions (encode_actions actions) = Inr (action_fields ?v)"
    by (simp add: parse_chord_actions_fields)
  also have "action_fields ?v = rev (rev actions)"
    using r assms(1) by (intro fields_pack) simp_all
  finally show ?thesis by simp
qed


theorem encode_decode_actions_witness:
  "length [1, 2, 1023 :: int] \<le> 12 \<and> list_all (\<lambda>a. 1 \<le> a \<and> a \<le> 1023) [1, 2, 1023 :: int]
   \<and> encode_actions [1, 2, 1023] = ''100BFF''
   \<and> parse_chord_actions ''100BFF'' = Inr [1, 2, 1023]"
proof -
  have h1: "length [1, 2, 1023 :: int] \<le> 12" by simp
  have h2: "list_all (\<lambda>a. 1 \<le> a \<and> a \<le> 1023) [1, 2, 1023 :: int]" by simp
  have e: "encode_actions [1, 2, 1023] = ''100BFF''"
    by (simp add: encode_actions_def format_X_def hex_nat.simps hex_char_def)
  from encode_decode_actions [OF h1 h2] h1 h2 e show ?thesis by simp
qed

text \<open>
  The parser of \<^verbatim>\<open>_parse_chord_actions\<close> is \<^verbatim>\<open>int(hex_str, 16)\<close>, which reads a sign:
  the text \<^verbatim>\<open>-1\<close> is no hexadecimal numeral, it parses to the negative number, and
  each of its twelve fields is 1023.
\<close>

theorem parse_chord_actions_signed_counterexample:
  "py_int 16 ''-1'' = Some (- 1) \<and> \<not> hex_numeral ''-1''
   \<and> parse_chord_actions ''-1''
       = Inr [1023, 1023, 1023, 1023, 1023, 1023, 1023, 1023, 1023, 1023, 1023, 1023]"
  by code_simp

text \<open>
  C9, as amended: for every input string \<^verbatim>\<open>_parse_chord_actions\<close> returns without
  raising. It parses the string with \<^verbatim>\<open>int(hex_str, 16)\<close>; when that accepts the string
  the result is the nonzero ones among the twelve 10-bit fields of the value, the field
  of the least significant bits last. For a plain hexadecimal numeral the value is its
  unsigned value. A string that \<^verbatim>\<open>int(hex_str, 16)\<close> rejects gives the empty list, and
  so does \<^verbatim>\<open>0\<close>.
\<close>

theorem parse_chord_actions_python_int:
  "parse_chord_actions s = Inr (case py_int 16 s of None \<Rightarrow> [] | Some v \<Rightarrow> action_fields v)
   \<and> (hex_numeral s \<longrightarrow> parse_chord_actions s = Inr (action_fields (hex_value s)))
   \<and> (py_int 16 s = None \<longrightarrow> parse_chord_actions s = Inr [])
   \<and> parse_chord_actions ''0'' = Inr []"
proof -
  have "parse_chord_actions ''0'' = Inr []" by code_simp
  then show ?thesis
    by (simp add: parse_chord_actions_fields py_int_hex_numeral)
qed

theorem parse_chord_actions_python_int_witness:
  "hex_numeral ''C01'' \<and> hex_value ''C01'' = 3073 \<and> parse_chord_actions ''C01'' = Inr [3, 1]
   \<and> py_int 16 ''xyz'' = None \<and> parse_chord_actions ''xyz'' = Inr []"
proof -
  have h: "hex_numeral ''C01''" by code_simp
  have v: "hex_value ''C01'' = 3073" by code_simp
  have f: "action_fields 3073 = [3, 1]" by code_simp
  have n: "py_int 16 ''xyz'' = None" by code_simp
  from parse_chord_actions_python_int [of "''C01''"] h
  have "parse_chord_actions ''C01'' = Inr (action_fields (hex_value ''C01''))" by blast
  with v f have a: "parse_chord_actions ''C01'' = Inr [3, 1]" by simp
  from parse_chord_actions_python_int [of "''xyz''"] n
  have b: "parse_chord_actions ''xyz'' = Inr []" by blast
  show ?thesis using h v a n b by simp
qed

section \<open>The phrase decoder\<close>

lemma try_lengths_432:
  "try_lengths s i [4, 3, 2] =
     (if 4 \<le> length (drop i s) \<and> py_int 16 (take 4 (drop i s)) \<noteq> None
        then Some (the (py_int 16 (take 4 (drop i s))), 4)
      else if 3 \<le> length (drop i s) \<and> py_int 16 (take 3 (drop i s)) \<noteq> None
        then Some (the (py_int 16 (take 3 (drop i s))), 3)
      else if 2 \<le> length (drop i s) \<and> py_int 16 (take 2 (drop i s)) \<noteq> None
        then Some (the (py_int 16 (take 2 (drop i s))), 2)
      else None)"
  by (auto split: option.splits)

lemma phrase_loop_greedy: "phrase_loop s i phrase = phrase @ greedy_phrase (drop i s)"
proof (induction s i phrase rule: phrase_loop.induct)
  case (1 s i phrase)
  show ?case
  proof (cases "i < length s")
    case False
    then show ?thesis
      by (simp add: phrase_loop.simps [of s i] greedy_phrase.simps [of "[]"])
  next
    case True
    then have ne: "drop i s \<noteq> []" by simp
    show ?thesis
    proof (cases "try_lengths s i [4, 3, 2]")
      case None
      have loop: "phrase_loop s i phrase = phrase_loop s (i + 1) phrase"
        using True None by (simp add: phrase_loop.simps [of s i])
      have "greedy_phrase (drop i s) = greedy_phrase (drop 1 (drop i s))"
      proof -
        from None have c:
          "\<not> (4 \<le> length (drop i s) \<and> py_int 16 (take 4 (drop i s)) \<noteq> None)"
          "\<not> (3 \<le> length (drop i s) \<and> py_int 16 (take 3 (drop i s)) \<noteq> None)"
          "\<not> (2 \<le> length (drop i s) \<and> py_int 16 (take 2 (drop i s)) \<noteq> None)"
          unfolding try_lengths_432 by (auto split: if_splits)
        show ?thesis
          by (subst greedy_phrase.simps) (simp only: c ne if_False)
      qed
      then show ?thesis
        using loop 1(1) [OF True None] by (simp add: add.commute)
    next
      case (Some x)
      obtain val len where x: "x = (val, len)" by (cases x)
      have loop: "phrase_loop s i phrase = phrase_loop s (i + len) (phrase @ [val])"
        using True Some x by (simp add: phrase_loop.simps [of s i])
      have "greedy_phrase (drop i s) = val # greedy_phrase (drop len (drop i s))"
      proof -
        from Some x have c:
          "(if 4 \<le> length (drop i s) \<and> py_int 16 (take 4 (drop i s)) \<noteq> None
              then Some (the (py_int 16 (take 4 (drop i s))), 4)
            else if 3 \<le> length (drop i s) \<and> py_int 16 (take 3 (drop i s)) \<noteq> None
              then Some (the (py_int 16 (take 3 (drop i s))), 3)
            else if 2 \<le> length (drop i s) \<and> py_int 16 (take 2 (drop i s)) \<noteq> None
              then Some (the (py_int 16 (take 2 (drop i s))), 2)
            else None) = Some (val, len)"
          unfolding try_lengths_432 by simp
        show ?thesis
          using c ne by (subst greedy_phrase.simps) (simp only: if_False split: if_splits, auto)
      qed
      then show ?thesis
        using loop 1(2) [OF True Some x [symmetric]] by (simp add: add.commute)
    qed
  qed
qed


lemma take_plain:
  assumes "list_all (is_digit 16) s" and "0 < k" and "k \<le> length s"
  shows "hex_numeral (take k s)" and "py_int 16 (take k s) = Some (hex_value (take k s))"
proof -
  from assms(2,3) have "take k s \<noteq> []" by auto
  moreover from assms(1) have "list_all (is_digit 16) (take k s)"
    by (auto simp: list_all_iff dest: in_set_takeD)
  ultimately show "hex_numeral (take k s)" by (simp add: hex_numeral_def)
  then show "py_int 16 (take k s) = Some (hex_value (take k s))"
    by (rule py_int_hex_numeral)
qed

lemma greedy_plain: "list_all (is_digit 16) s \<Longrightarrow> greedy_phrase s = decode_phrase s"
proof (induction "length s" arbitrary: s rule: less_induct)
  case less
  have d: "list_all (is_digit 16) (drop k s)" for k
    using less.prems by (auto simp: list_all_iff dest: in_set_dropD)
  show ?case
  proof (cases "s = []")
    case True
    then show ?thesis by (simp add: greedy_phrase.simps [of "[]"] decode_phrase.simps [of "[]"])
  next
    case False
    then have l: "0 < length s" by simp
    have ih: "greedy_phrase (drop k s) = decode_phrase (drop k s)" if "0 < k" for k
      using less.hyps [of "drop k s"] d [of k] that l by simp
    consider "4 \<le> length s" | "length s = 3" | "length s = 2" | "length s = 1"
      using l by linarith
    then show ?thesis
    proof cases
      case 1
      with take_plain [OF less.prems, of 4] False ih [of 4] show ?thesis
        by (subst greedy_phrase.simps, subst decode_phrase.simps) simp
    next
      case 2
      with take_plain [OF less.prems, of 3] False ih [of 3] show ?thesis
        by (subst greedy_phrase.simps, subst decode_phrase.simps) simp
    next
      case 3
      with take_plain [OF less.prems, of 2] False ih [of 2] show ?thesis
        by (subst greedy_phrase.simps, subst decode_phrase.simps) simp
    next
      case 4
      with False ih [of 1] show ?thesis
        by (subst greedy_phrase.simps, subst decode_phrase.simps) simp
    qed
  qed
qed

lemma token_char_zero: "token_char (CHR ''0'')"
  by (simp add: token_char_def is_digit_def digit_value_def)

lemma take_sign_chars:
  "list_all token_char (snd (take_sign s)) \<Longrightarrow> list_all token_char s"
  by (cases s) (auto simp: take_sign_def token_char_def split: if_splits)

lemma take_0x_chars:
  "list_all token_char (take_0x s) \<Longrightarrow> list_all token_char s"
proof -
  have z: "token_char (CHR ''0'')" "token_char (CHR ''x'')" "token_char (CHR ''X'')"
      "token_char (CHR ''_'')"
    by (simp_all add: token_char_def is_digit_def digit_value_def)
  assume "list_all token_char (take_0x s)"
  then show ?thesis
    using z by (auto simp: take_0x_def split: list.splits if_splits)
qed

lemma dropWhile_chars:
  "list_all token_char (dropWhile int_space s) \<Longrightarrow> list_all token_char s"
  by (induction s) (auto simp: token_char_def split: if_splits)

lemma body_rest_chars:
  assumes "list_all int_space (dropWhile (digit_or_underscore 16) s)"
  shows "list_all token_char s"
proof -
  have "list_all token_char (takeWhile (digit_or_underscore 16) s)"
    by (auto simp: list_all_iff token_char_def digit_or_underscore_def dest: set_takeWhileD)
  moreover from assms have "list_all token_char (dropWhile (digit_or_underscore 16) s)"
    by (auto simp: list_all_iff token_char_def)
  ultimately have "list_all token_char
      (takeWhile (digit_or_underscore 16) s @ dropWhile (digit_or_underscore 16) s)"
    by (simp only: list_all_append)
  then show ?thesis by (simp only: takeWhile_dropWhile_id)
qed

lemma py_int_16_chars:
  assumes "py_int 16 t \<noteq> None"
  shows "list_all token_char t"
proof -
  obtain neg s2 where ts: "take_sign (dropWhile int_space t) = (neg, s2)"
    by (cases "take_sign (dropWhile int_space t)")
  from assms ts have "list_all int_space (dropWhile (digit_or_underscore 16) (take_0x s2))"
    by (auto simp: py_int_def Let_def split: if_splits)
  then have "list_all token_char (take_0x s2)" by (rule body_rest_chars)
  then have "list_all token_char s2" by (rule take_0x_chars)
  with ts have "list_all token_char (snd (take_sign (dropWhile int_space t)))" by simp
  then have "list_all token_char (dropWhile int_space t)" by (rule take_sign_chars)
  then show ?thesis by (rule dropWhile_chars)
qed


text \<open>
  A token with a sign is no token of hexadecimal digits, but \<^verbatim>\<open>int(token, 16)\<close>
  accepts it: \<^verbatim>\<open>_parse_phrase\<close> reads \<^verbatim>\<open>-123\<close> as one negative code, where the
  scan over hexadecimal digits skips the sign and reads \<^verbatim>\<open>123\<close>.
\<close>

theorem parse_phrase_signed_token_counterexample:
  "parse_phrase ''-123'' = Inr [- 291] \<and> decode_phrase ''-123'' = [291]"
proof -
  have "greedy_phrase ''-123'' = [- 291]" by code_simp
  moreover have "decode_phrase ''-123'' = [291]" by code_simp
  ultimately show ?thesis
    by (simp add: parse_phrase_def phrase_loop_greedy)
qed

text \<open>
  C8, as amended: for every string \<^verbatim>\<open>_parse_phrase\<close> returns without raising. It scans
  from the left and at each position takes the first of the widths 4, 3, 2 whose token
  \<^verbatim>\<open>int(token, 16)\<close> accepts, appends the value and moves by that width, and moves one
  character when no width parses. A token of hexadecimal digits is always accepted, with
  its unsigned value, so on a string of hexadecimal digits the result is the scan over
  hexadecimal tokens. An accepted token can hold nothing but hexadecimal digits, a sign,
  an underscore, the letter of the prefix \<^verbatim>\<open>0x\<close> and white space; such tokens are
  accepted as \<^verbatim>\<open>int\<close> reads them, and a code can be negative.
\<close>

theorem parse_phrase_greedy:
  "parse_phrase s = Inr (greedy_phrase s)
   \<and> (list_all (is_digit 16) s \<longrightarrow> parse_phrase s = Inr (decode_phrase s))
   \<and> (hex_numeral t \<longrightarrow> py_int 16 t = Some (hex_value t))
   \<and> (py_int 16 t \<noteq> None \<longrightarrow> list_all token_char t)
   \<and> parse_phrase ''-123'' = Inr [- 291]
   \<and> parse_phrase ''1_2F'' = Inr [303]
   \<and> parse_phrase ''0X_F'' = Inr [15]
   \<and> parse_phrase ''1 23'' = Inr [1, 35]
   \<and> parse_phrase ''+1ff'' = Inr [511]"
proof -
  have a: "parse_phrase s = Inr (greedy_phrase s)" for s
    by (simp add: parse_phrase_def phrase_loop_greedy)
  have b: "list_all (is_digit 16) s \<longrightarrow> parse_phrase s = Inr (decode_phrase s)"
    by (simp add: a greedy_plain)
  have c: "hex_numeral t \<longrightarrow> py_int 16 t = Some (hex_value t)"
    by (simp add: py_int_hex_numeral)
  have d: "py_int 16 t \<noteq> None \<longrightarrow> list_all token_char t"
    using py_int_16_chars by blast
  have e0: "greedy_phrase ''-123'' = [- 291]" by code_simp
  have e1: "greedy_phrase ''1_2F'' = [303]" by code_simp
  have e2: "greedy_phrase ''0X_F'' = [15]" by code_simp
  have e3: "greedy_phrase ''1 23'' = [1, 35]" by code_simp
  have e4: "greedy_phrase ''+1ff'' = [511]" by code_simp
  show ?thesis
    by (intro conjI) (rule a b c d | simp add: a e0 e1 e2 e3 e4)+
qed

theorem parse_phrase_greedy_witness:
  "list_all (is_digit 16) ''0041F'' \<and> parse_phrase ''0041F'' = Inr [65]
   \<and> hex_numeral ''0041'' \<and> py_int 16 ''0041'' = Some 65"
proof -
  have l: "list_all (is_digit 16) ''0041F''"
    by (simp add: is_digit_def digit_value_def)
  have d: "decode_phrase ''0041F'' = [65]"
    by code_simp
  have h: "hex_numeral ''0041''"
    by (simp add: hex_numeral_def is_digit_def digit_value_def)
  have v: "hex_value ''0041'' = 65"
    by (simp add: hex_value_def digit_value_def)
  from parse_phrase_greedy [of "''0041F''" "''0041''"] l
  have "parse_phrase ''0041F'' = Inr (decode_phrase ''0041F'')" by blast
  with d have p: "parse_phrase ''0041F'' = Inr [65]" by simp
  from parse_phrase_greedy [of "''0041F''" "''0041''"] h
  have "py_int 16 ''0041'' = Some (hex_value ''0041'')" by blast
  with v have "py_int 16 ''0041'' = Some 65" by simp
  with l p h show ?thesis by blast
qed

section \<open>The version comparator\<close>

lemma upt_3: "[0..<3] = [0, 1, 2]"
  by (simp add: upt_conv_Cons del: upt_Suc)

lemma version_gte_unfold:
  assumes "version self = Some v"
    and "c = component (numeric_prefix v)" and "t = component (numeric_prefix target)"
  shows "version_gte self target =
      (case (c 0, t 0) of
        (Some c0, Some t0) \<Rightarrow>
          if c0 > t0 then True else if c0 < t0 then False
          else (case (c 1, t 1) of
                  (Some c1, Some t1) \<Rightarrow>
                    if c1 > t1 then True else if c1 < t1 then False
                    else (case (c 2, t 2) of
                            (Some c2, Some t2) \<Rightarrow> c2 \<ge> t2
                          | _ \<Rightarrow> False)
                | _ \<Rightarrow> False)
      | _ \<Rightarrow> False)"
  using assms by (auto simp: version_gte_def upt_3 split: option.splits)

lemma split_absent: "d \<notin> set s \<Longrightarrow> split d s = [s]"
  by (induction s) auto

lemma is_digit_10_16: "is_digit 10 c \<Longrightarrow> is_digit 16 c"
  by (auto simp: is_digit_def split: option.splits)

lemma py_int_10_too_long:
  assumes "list_all (is_digit 10) s" and "max_str_digits < length s"
  shows "py_int 10 s = None"
proof -
  from assms(2) obtain c cs where s: "s = c # cs" by (cases s) auto
  with assms(1) have c: "is_digit 16 c" by (simp add: is_digit_10_16)
  note p = is_digit16_plain [OF c]
  have d1: "dropWhile int_space s = s" using s p by simp
  have d2: "take_sign s = (False, s)" using s p by (simp add: take_sign_def)
  have dig: "\<forall>x\<in>set s. digit_or_underscore 10 x"
    using assms(1) by (auto simp: digit_or_underscore_def list_all_iff)
  have d4: "takeWhile (digit_or_underscore 10) s = s" using dig by (simp add: takeWhile_eq_all_conv)
  have d5: "filter (is_digit 10) s = s" using assms(1) by (simp add: list_all_iff)
  show ?thesis
    unfolding py_int_def d1 d2 by (simp add: Let_def d4 d5 assms(2))
qed

text \<open>
  The loop of \<^verbatim>\<open>_version_gte\<close> returns as soon as one component decides, and the later
  components are never given to \<^verbatim>\<open>int\<close>: version \<^verbatim>\<open>3.x\<close> is at least \<^verbatim>\<open>2.2.0\<close>
  although \<^verbatim>\<open>x\<close> is no number.
\<close>

theorem version_gte_early_return_counterexample:
  "py_int 10 ''x'' = None \<and> version_gte (with_version ''3.x'') ''2.2.0''"
  by code_simp

text \<open>
  C6, as amended: the comparator never raises. It drops everything from the first
  \<^verbatim>\<open>-\<close> on and splits the rest at the dots. Component \<open>i\<close> of a version is
  \<^verbatim>\<open>int\<close> of the \<open>i\<close>-th piece, and 0 when there are no more than \<open>i\<close> pieces. The
  first three components are compared from the left: the first pair of unequal components
  decides, and three equal pairs give true. A component that \<^verbatim>\<open>int\<close> rejects (no
  decimal numeral, an empty piece, more than 4300 digits) gives false when the comparison
  reaches it, that is when all components before it are numeric and equal; a component
  after the deciding pair is not looked at. A session without a version gives false. The
  three examples of the specification hold.
\<close>

theorem version_gte_compares:
  assumes "version self = Some v"
    and "cur = split CHR ''.'' (hd (split CHR ''-'' v))"
    and "tgt = split CHR ''.'' (hd (split CHR ''-'' target))"
    and "c = (\<lambda>i. if i < length cur then py_int 10 (cur ! i) else Some 0)"
    and "t = (\<lambda>i. if i < length tgt then py_int 10 (tgt ! i) else Some 0)"
  shows
    "(c 0 = None \<or> t 0 = None \<longrightarrow> \<not> version_gte self target)
     \<and> (\<forall>a b. c 0 = Some a \<and> t 0 = Some b \<and> a \<noteq> b \<longrightarrow> version_gte self target = (a > b))
     \<and> (c 0 = t 0 \<and> c 0 \<noteq> None \<longrightarrow>
          (c 1 = None \<or> t 1 = None \<longrightarrow> \<not> version_gte self target)
          \<and> (\<forall>a b. c 1 = Some a \<and> t 1 = Some b \<and> a \<noteq> b \<longrightarrow> version_gte self target = (a > b))
          \<and> (c 1 = t 1 \<and> c 1 \<noteq> None \<longrightarrow>
               (c 2 = None \<or> t 2 = None \<longrightarrow> \<not> version_gte self target)
               \<and> (\<forall>a b. c 2 = Some a \<and> t 2 = Some b \<longrightarrow> version_gte self target = (a \<ge> b))))
     \<and> (version self' = None \<longrightarrow> \<not> version_gte self' target)
     \<and> version_gte (with_version ''2.2.0-beta.20'') ''2.2.0-beta.4''
     \<and> \<not> version_gte (with_version ''2.1.9'') ''2.2.0''
     \<and> version_gte (with_version ''2.2.0'') ''2.2.0''
     \<and> version_gte (with_version ''2.2'') ''2.2.0''
     \<and> \<not> version_gte (with_version ''2.2'') ''2.2.1''
     \<and> \<not> version_gte (with_version ''2.2.'') ''2.2.0''
     \<and> \<not> version_gte (with_version (replicate 4301 CHR ''9'')) ''2.2.0''"
proof -
  have ex1: "version_gte (with_version ''2.2.0-beta.20'') ''2.2.0-beta.4''"
    by code_simp
  have ex2: "\<not> version_gte (with_version ''2.1.9'') ''2.2.0''"
    by code_simp
  have ex3: "version_gte (with_version ''2.2.0'') ''2.2.0''"
    by code_simp
  have ex4: "version_gte (with_version ''2.2'') ''2.2.0''"
    by code_simp
  have ex5: "\<not> version_gte (with_version ''2.2'') ''2.2.1''"
    by code_simp
  have ex6: "\<not> version_gte (with_version ''2.2.'') ''2.2.0''"
    by code_simp
  have ex7: "\<not> version_gte (with_version (replicate 4301 CHR ''9'')) ''2.2.0''"
  proof -
    let ?n = "replicate 4301 CHR ''9''"
    have "py_int 10 ?n = None"
      by (rule py_int_10_too_long)
         (simp_all add: list_all_iff is_digit_def digit_value_def max_str_digits_def)
    moreover have "numeric_prefix ?n = [?n]"
      by (simp add: numeric_prefix_def split_absent)
    ultimately show ?thesis
      by (simp add: version_gte_def with_version_def upt_3 component_def)
  qed
  have none: "version self' = None \<longrightarrow> \<not> version_gte self' target"
    by (simp add: version_gte_def)
  have cc: "c = component (numeric_prefix v)"
    unfolding assms(4) assms(2) by (simp add: component_def numeric_prefix_def fun_eq_iff)
  have tt: "t = component (numeric_prefix target)"
    unfolding assms(5) assms(3) by (simp add: component_def numeric_prefix_def fun_eq_iff)
  note u = version_gte_unfold [OF assms(1) cc tt]
  have p0: "c 0 = None \<or> t 0 = None \<longrightarrow> \<not> version_gte self target"
    unfolding u by (auto simp del: One_nat_def split: option.splits)
  have q0: "\<forall>a b. c 0 = Some a \<and> t 0 = Some b \<and> a \<noteq> b \<longrightarrow> version_gte self target = (a > b)"
    unfolding u by (auto simp del: One_nat_def split: option.splits)
  have p1: "c 0 = t 0 \<and> c 0 \<noteq> None \<longrightarrow> (c 1 = None \<or> t 1 = None \<longrightarrow> \<not> version_gte self target)"
    unfolding u by (auto simp del: One_nat_def split: option.splits)
  have q1: "c 0 = t 0 \<and> c 0 \<noteq> None \<longrightarrow>
      (\<forall>a b. c 1 = Some a \<and> t 1 = Some b \<and> a \<noteq> b \<longrightarrow> version_gte self target = (a > b))"
    unfolding u by (auto simp del: One_nat_def split: option.splits)
  have p2: "c 0 = t 0 \<and> c 0 \<noteq> None \<longrightarrow> c 1 = t 1 \<and> c 1 \<noteq> None \<longrightarrow>
      (c 2 = None \<or> t 2 = None \<longrightarrow> \<not> version_gte self target)"
    unfolding u by (auto simp del: One_nat_def split: option.splits)
  have q2: "c 0 = t 0 \<and> c 0 \<noteq> None \<longrightarrow> c 1 = t 1 \<and> c 1 \<noteq> None \<longrightarrow>
      (\<forall>a b. c 2 = Some a \<and> t 2 = Some b \<longrightarrow> version_gte self target = (a \<ge> b))"
    unfolding u by (auto simp del: One_nat_def split: option.splits)
  from p1 q1 p2 q2 have deep:
    "c 0 = t 0 \<and> c 0 \<noteq> None \<longrightarrow>
          (c 1 = None \<or> t 1 = None \<longrightarrow> \<not> version_gte self target)
          \<and> (\<forall>a b. c 1 = Some a \<and> t 1 = Some b \<and> a \<noteq> b \<longrightarrow> version_gte self target = (a > b))
          \<and> (c 1 = t 1 \<and> c 1 \<noteq> None \<longrightarrow>
               (c 2 = None \<or> t 2 = None \<longrightarrow> \<not> version_gte self target)
               \<and> (\<forall>a b. c 2 = Some a \<and> t 2 = Some b \<longrightarrow> version_gte self target = (a \<ge> b)))"
    by blast
  show ?thesis
    by (intro conjI) (rule p0 q0 deep none ex1 ex2 ex3 ex4 ex5 ex6 ex7)+
qed

theorem version_gte_compares_witness:
  "version (with_version ''2.x'') = Some ''2.x''
   \<and> [''2'', ''x''] = split CHR ''.'' (hd (split CHR ''-'' ''2.x''))
   \<and> [''2'', ''2'', ''0''] = split CHR ''.'' (hd (split CHR ''-'' ''2.2.0''))
   \<and> py_int 10 ''x'' = None
   \<and> \<not> version_gte (with_version ''2.x'') ''2.2.0''
   \<and> version (with_version ''2.2'') = Some ''2.2''
   \<and> [''2'', ''2''] = split CHR ''.'' (hd (split CHR ''-'' ''2.2''))
   \<and> version_gte (with_version ''2.2'') ''2.2.0''"
proof -
  have v1: "version (with_version ''2.x'') = Some ''2.x''"
    by (simp add: with_version_def)
  have v2: "version (with_version ''2.2'') = Some ''2.2''"
    by (simp add: with_version_def)
  have l1: "[''2'', ''x''] = split CHR ''.'' (hd (split CHR ''-'' ''2.x''))"
    by simp
  have l2: "[''2'', ''2'', ''0''] = split CHR ''.'' (hd (split CHR ''-'' ''2.2.0''))"
    by simp
  have l3: "[''2'', ''2''] = split CHR ''.'' (hd (split CHR ''-'' ''2.2''))"
    by simp
  have n2: "py_int 10 ''2'' = Some 2" by code_simp
  have n0: "py_int 10 ''0'' = Some 0" by code_simp
  have nx: "py_int 10 ''x'' = None" by code_simp
  from version_gte_compares [OF v1 l1 l2 refl refl] n2 nx
  have a: "\<not> version_gte (with_version ''2.x'') ''2.2.0''"
    by simp
  from version_gte_compares [OF v2 l3 l2 refl refl] n2 n0
  have b: "version_gte (with_version ''2.2'') ''2.2.0''"
    by simp
  from v1 v2 l1 l2 l3 nx a b show ?thesis by blast
qed

section \<open>The echo check\<close>

lemma split_not_Nil: "split d s \<noteq> []"
  by (cases s) (auto split: list.splits)

lemma hd_split_Cons: "c \<noteq> d \<Longrightarrow> hd (split d (c # cs)) = c # hd (split d cs)"
  using split_not_Nil [of d cs] by (auto split: list.splits)

lemma check_response_echo:
  assumes "command_parts \<noteq> []" and "parts = split CHR '' '' response"
  shows "check_response command_parts response =
           Inr (if length command_parts = 1
                then (if hd parts = hd command_parts then tl parts else [])
                else (if take 2 parts = take 2 command_parts then drop 2 parts else []))"
proof -
  obtain p ps where sp: "split CHR '' '' response = p # ps"
    using split_not_Nil [of "CHR '' ''" response] by (cases "split CHR '' '' response") simp_all
  with assms(2) have parts: "split CHR '' '' response = p # ps" "parts = p # ps"
    by simp_all
  from assms(1) obtain c cs where cmd: "command_parts = c # cs"
    by (cases command_parts) auto
  show ?thesis
  proof (cases cs)
    case Nil
    with cmd parts show ?thesis
      by (simp add: check_response_def Let_def)
  next
    case (Cons c1 cs')
    show ?thesis
    proof (cases ps)
      case Nil
      with cmd parts Cons show ?thesis
        by (simp add: check_response_def Let_def)
    next
      case (Cons p1 ps')
      with cmd parts \<open>cs = c1 # cs'\<close> show ?thesis
        by (simp add: check_response_def Let_def)
    qed
  qed
qed

lemma startswith_UKN_hd:
  assumes "startswith response ''UKN''"
  shows "startswith (hd (split CHR '' '' response)) ''UKN''"
proof -
  from assms have t: "take (Suc (Suc (Suc 0))) response = ''UKN''"
    by (simp add: startswith_def)
  then obtain a ra where r1: "response = a # ra" by (cases response) auto
  with t obtain b rb where r2: "ra = b # rb" by (cases ra) auto
  with t r1 obtain c r where r3: "rb = c # r" by (cases rb) auto
  from t r1 r2 r3 have "response = CHR ''U'' # CHR ''K'' # CHR ''N'' # r"
    by simp
  then have "hd (split CHR '' '' response) = CHR ''U'' # CHR ''K'' # CHR ''N'' # hd (split CHR '' '' r)"
    by (simp add: hd_split_Cons del: split.simps)
  then show ?thesis by (simp add: startswith_def)
qed

text \<open>
  C5, as amended: for every command with at least one part and every reply line,
  \<^verbatim>\<open>send_command\<close> returns without raising. A one-part command gives the tokens after
  the first when the first token of the reply is the command's first part, and the empty
  list otherwise. A command of two or more parts gives the tokens after the second when
  the first two tokens of the reply are the command's first two parts, and the empty list
  otherwise, also when the reply has one token only. A reply that starts with \<^verbatim>\<open>UKN\<close>
  gives the empty list unless the command's own first part starts with \<^verbatim>\<open>UKN\<close>.
\<close>

theorem send_command_echo:
  assumes "command_parts \<noteq> []"
    and "send_raw self (join command_parts) = (Inr (), self1)"
    and "read_line self1 tmo = (Inr (Some response), self2)"
    and "parts = split CHR '' '' response"
  shows "fst (send_command self command_parts tmo) =
           Inr (if length command_parts = 1
                then (if hd parts = hd command_parts then tl parts else [])
                else (if take 2 parts = take 2 command_parts then drop 2 parts else []))
         \<and> (startswith response ''UKN'' \<and> \<not> startswith (hd command_parts) ''UKN''
              \<longrightarrow> fst (send_command self command_parts tmo) = Inr [])"
proof -
  have sc: "fst (send_command self command_parts tmo) = check_response command_parts response"
    using assms(2,3) by (simp add: send_command_def Let_def)
  note e = check_response_echo [OF assms(1,4)]
  have "hd parts \<noteq> hd command_parts"
    if "startswith response ''UKN''" "\<not> startswith (hd command_parts) ''UKN''"
    using startswith_UKN_hd [OF that(1)] that(2) assms(4) by auto
  moreover have "take 2 parts \<noteq> take 2 command_parts" if "hd parts \<noteq> hd command_parts"
  proof -
    have "parts \<noteq> []" unfolding assms(4) by (rule split_not_Nil)
    then obtain p ps where "parts = p # ps" by (cases parts) simp_all
    moreover obtain c cs where "command_parts = c # cs"
      using assms(1) by (cases command_parts) simp_all
    ultimately show ?thesis using that by (simp add: take_Cons')
  qed
  ultimately show ?thesis
    unfolding sc e by auto
qed


subsection \<open>One command and its reply on the wire\<close>

lemma send_raw_open:
  assumes "is_open (serial self)" and "list_all ascii command"
  shows "send_raw self command =
     (Inr (), self\<lparr>serial := (serial self)\<lparr>written :=
                 written (serial self) @ command @ [CHR 0x0D, CHR 0x0A]\<rparr>\<rparr>)"
  using assms by (simp add: send_raw_def Let_def ascii_def)

lemma read_loop_arrive:
  assumes "t - start < tmo" and "CHR 0x0A \<notin> set s" and "CHR 0x0D \<notin> set s"
  shows "read_loop start tmo buffer (arrive t s @ w) = read_loop start tmo (buffer @ s) w"
  using assms by (induction s arbitrary: buffer) (auto simp: arrive_def)

lemma read_loop_reply:
  assumes "t - start < tmo" and "CHR 0x0A \<notin> set s" and "CHR 0x0D \<notin> set s"
    and "strip (filter ascii (buffer @ s)) \<noteq> []"
  shows "read_loop start tmo buffer (reply t s @ w)
           = (Inr (Some (strip (filter ascii (buffer @ s)))), w)"
proof -
  have "reply t s @ w = arrive t s @ (t, Byte (CHR 0x0D)) # (t, Byte (CHR 0x0A)) # w"
    by (simp add: reply_def arrive_def)
  then show ?thesis
    using assms by (simp add: read_loop_arrive Let_def)
qed

lemma read_line_reply:
  assumes "wire (serial self) = reply t s @ w" and "0 < tmo"
    and "CHR 0x0A \<notin> set s" and "CHR 0x0D \<notin> set s" and "strip (filter ascii s) \<noteq> []"
  shows "read_line self tmo
           = (Inr (Some (strip (filter ascii s))), self\<lparr>serial := (serial self)\<lparr>wire := w\<rparr>\<rparr>)"
proof -
  have hd: "(case reply t s @ w of [] \<Rightarrow> 0 | (now, p) # r \<Rightarrow> now) = t"
    by (cases s) (simp_all add: reply_def arrive_def)
  have "read_loop t tmo [] (reply t s @ w) = (Inr (Some (strip (filter ascii ([] @ s)))), w)"
    using assms by (intro read_loop_reply) simp_all
  then show ?thesis
    using assms(1) hd by (simp add: read_line_def Let_def)
qed

lemma plain_line:
  "list_all ascii s \<Longrightarrow> s \<noteq> [] \<Longrightarrow> \<not> isspace (hd s) \<Longrightarrow> \<not> isspace (last s) \<Longrightarrow>
   strip (filter ascii s) = s"
proof -
  assume a: "list_all ascii s" "s \<noteq> []" "\<not> isspace (hd s)" "\<not> isspace (last s)"
  from a(1) have f: "filter ascii s = s" by (simp add: list_all_iff)
  from a(2,3) have d: "dropWhile isspace s = s" by (cases s) simp_all
  from a(2,4) have "dropWhile isspace (rev s) = rev s"
    by (cases "rev s") (simp_all add: last_rev [symmetric] hd_rev)
  with f d show ?thesis by (simp add: strip_def)
qed

lemma send_command_reply:
  assumes "is_open (serial self)" and "list_all ascii (join command_parts)"
    and "wire (serial self) = reply t s @ w" and "0 < tmo"
    and "list_all ascii s" "s \<noteq> []" "\<not> isspace (hd s)" "\<not> isspace (last s)"
    and "CHR 0x0A \<notin> set s" "CHR 0x0D \<notin> set s"
  shows "send_command self command_parts tmo =
     (check_response command_parts s,
      self\<lparr>serial := (serial self)\<lparr>wire := w,
         written := written (serial self) @ join command_parts @ [CHR 0x0D, CHR 0x0A]\<rparr>\<rparr>)"
proof -
  let ?self1 = "self\<lparr>serial := (serial self)\<lparr>written :=
                 written (serial self) @ join command_parts @ [CHR 0x0D, CHR 0x0A]\<rparr>\<rparr>"
  have st: "strip (filter ascii s) = s"
    using assms(5-8) by (rule plain_line)
  have 1: "send_raw self (join command_parts) = (Inr (), ?self1)"
    using assms(1,2) by (rule send_raw_open)
  have "read_line ?self1 tmo
      = (Inr (Some (strip (filter ascii s))), ?self1\<lparr>serial := (serial ?self1)\<lparr>wire := w\<rparr>\<rparr>)"
    using assms(3,4,9,10) st assms(6) by (intro read_line_reply [where t = t]) simp_all
  with st have 2: "read_line ?self1 tmo
      = (Inr (Some s), ?self1\<lparr>serial := (serial ?self1)\<lparr>wire := w\<rparr>\<rparr>)"
    by simp
  show ?thesis
    using 1 2 by (simp add: send_command_def Let_def)
qed

lemma send_command_silent:
  assumes "is_open (serial self)" and "list_all ascii (join command_parts)"
    and "wire (serial self) = []"
  shows "send_command self command_parts tmo =
     (Inr [], self\<lparr>serial := (serial self)\<lparr>written :=
                 written (serial self) @ join command_parts @ [CHR 0x0D, CHR 0x0A]\<rparr>\<rparr>)"
proof -
  let ?self1 = "self\<lparr>serial := (serial self)\<lparr>written :=
                 written (serial self) @ join command_parts @ [CHR 0x0D, CHR 0x0A]\<rparr>\<rparr>"
  have 1: "send_raw self (join command_parts) = (Inr (), ?self1)"
    using assms(1,2) by (rule send_raw_open)
  have 2: "read_line ?self1 tmo = (Inr None, ?self1)"
    using assms(3) by (simp add: read_line_def Let_def)
  show ?thesis
    using 1 2 by (simp add: send_command_def Let_def)
qed

text \<open>
  The echo is compared before the prefix \<^verbatim>\<open>UKN\<close> is looked at, so a reply
  \<^verbatim>\<open>UKN 1\<close> to the command \<^verbatim>\<open>UKN\<close> gives the token \<^verbatim>\<open>1\<close>; and an empty
  command raises \<^verbatim>\<open>IndexError\<close> as soon as a reply line is there.
\<close>

theorem send_command_echo_counterexample:
  "fst (send_command (CharaDevice_init (reply 0 ''UKN 1'')) [''UKN''] 2) = Inr [''1'']
   \<and> fst (send_command (CharaDevice_init (reply 0 ''UKN 1'')) [] 2) = Inl IndexError"
proof -
  have a: "send_command (CharaDevice_init (reply 0 ''UKN 1'')) [''UKN''] 2
      = (check_response [''UKN''] ''UKN 1'',
         (CharaDevice_init (reply 0 ''UKN 1''))\<lparr>serial :=
            (serial (CharaDevice_init (reply 0 ''UKN 1'')))\<lparr>wire := [],
              written := written (serial (CharaDevice_init (reply 0 ''UKN 1'')))
                 @ join [''UKN''] @ [CHR 0x0D, CHR 0x0A]\<rparr>\<rparr>)"
    by (rule send_command_reply [where t = 0])
       (simp_all add: CharaDevice_init_def ascii_def isspace_def)
  have b: "send_command (CharaDevice_init (reply 0 ''UKN 1'')) [] 2
      = (check_response [] ''UKN 1'',
         (CharaDevice_init (reply 0 ''UKN 1''))\<lparr>serial :=
            (serial (CharaDevice_init (reply 0 ''UKN 1'')))\<lparr>wire := [],
              written := written (serial (CharaDevice_init (reply 0 ''UKN 1'')))
                 @ join [] @ [CHR 0x0D, CHR 0x0A]\<rparr>\<rparr>)"
    by (rule send_command_reply [where t = 0])
       (simp_all add: CharaDevice_init_def ascii_def isspace_def)
  show ?thesis
    unfolding a b by (simp add: check_response_def Let_def)
qed


lemma exchange_steps:
  assumes "is_open (serial self)" and "list_all ascii command"
    and "wire (serial self) = reply t s @ w" and "0 < tmo"
    and "list_all ascii s" "s \<noteq> []" "\<not> isspace (hd s)" "\<not> isspace (last s)"
    and "CHR 0x0A \<notin> set s" "CHR 0x0D \<notin> set s"
  shows "\<exists>self1 self2. send_raw self command = (Inr (), self1)
           \<and> read_line self1 tmo = (Inr (Some s), self2)"
proof -
  let ?self1 = "self\<lparr>serial := (serial self)\<lparr>written :=
                 written (serial self) @ command @ [CHR 0x0D, CHR 0x0A]\<rparr>\<rparr>"
  have st: "strip (filter ascii s) = s"
    using assms(5-8) by (rule plain_line)
  have 1: "send_raw self command = (Inr (), ?self1)"
    using assms(1,2) by (rule send_raw_open)
  have "read_line ?self1 tmo
      = (Inr (Some (strip (filter ascii s))), ?self1\<lparr>serial := (serial ?self1)\<lparr>wire := w\<rparr>\<rparr>)"
    using assms(3,4,9,10) st assms(6) by (intro read_line_reply [where t = t]) simp_all
  with st 1 show ?thesis by auto
qed

theorem send_command_echo_witness:
  "fst (send_command (CharaDevice_init (reply 0 ''VERSION 2.2.0-beta.20'')) [''VERSION''] 2)
     = Inr [''2.2.0-beta.20'']
   \<and> startswith ''UKN'' ''UKN'' \<and> \<not> startswith (hd [''VERSION'']) ''UKN''
   \<and> fst (send_command (CharaDevice_init (reply 0 ''UKN'')) [''VERSION''] 2) = Inr []"
proof -
  obtain a1 a2 where a:
    "send_raw (CharaDevice_init (reply 0 ''VERSION 2.2.0-beta.20'')) (join [''VERSION''])
       = (Inr (), a1)"
    "read_line a1 2 = (Inr (Some ''VERSION 2.2.0-beta.20''), a2)"
    using exchange_steps [of "CharaDevice_init (reply 0 ''VERSION 2.2.0-beta.20'')"
        "join [''VERSION'']" 0 "''VERSION 2.2.0-beta.20''" "[]" 2]
    by (auto simp: CharaDevice_init_def ascii_def isspace_def)
  obtain b1 b2 where b:
    "send_raw (CharaDevice_init (reply 0 ''UKN'')) (join [''VERSION'']) = (Inr (), b1)"
    "read_line b1 2 = (Inr (Some ''UKN''), b2)"
    using exchange_steps [of "CharaDevice_init (reply 0 ''UKN'')"
        "join [''VERSION'']" 0 "''UKN''" "[]" 2]
    by (auto simp: CharaDevice_init_def ascii_def isspace_def)
  have ne: "[''VERSION''] \<noteq> []" by simp
  have u: "startswith ''UKN'' ''UKN'' \<and> \<not> startswith (hd [''VERSION'']) ''UKN''"
    by (simp add: startswith_def)
  from send_command_echo [OF ne a refl]
  have 1: "fst (send_command (CharaDevice_init (reply 0 ''VERSION 2.2.0-beta.20'')) [''VERSION''] 2)
     = Inr [''2.2.0-beta.20'']"
    by simp
  from send_command_echo [OF ne b refl] u
  have 2: "fst (send_command (CharaDevice_init (reply 0 ''UKN'')) [''VERSION''] 2) = Inr []"
    by blast
  from 1 2 u show ?thesis by blast
qed

section \<open>Settings\<close>

lemma command_VAR_B1_10: "join [''VAR'', ''B1'', format_X (0x10 + 0 * 0x100)] = ''VAR B1 10''"
  by (simp add: format_X_def hex_nat.simps hex_char_def)

text \<open>
  C3, as amended: \<^verbatim>\<open>get_setting(0, 0x10)\<close> issues \<^verbatim>\<open>VAR B1 10\<close>. When the reply
  line is \<^verbatim>\<open>VAR B1 5 0\<close>, the echo of the first two parts and then value and status,
  it returns 5; when the line is \<^verbatim>\<open>VAR B1 5 1\<close> it returns none; a bare line
  \<^verbatim>\<open>5 0\<close> or \<^verbatim>\<open>5 1\<close> fails the echo check and gives none.
\<close>

theorem get_setting_echo:
  assumes "send_raw self ''VAR B1 10'' = (Inr (), self1)"
    and "read_line self1 2 = (Inr (Some response), self2)"
  shows "(response = ''VAR B1 5 0'' \<longrightarrow> get_setting self 0 0x10 = (Inr (Some 5), self2))
       \<and> (response = ''VAR B1 5 1'' \<longrightarrow> get_setting self 0 0x10 = (Inr None, self2))
       \<and> (response = ''5 0'' \<or> response = ''5 1'' \<longrightarrow> get_setting self 0 0x10 = (Inr None, self2))"
proof -
  have sc: "send_command self [''VAR'', ''B1'', format_X (0x10 + 0 * 0x100)] 2
      = (check_response [''VAR'', ''B1'', ''10''] response, self2)"
    using assms command_VAR_B1_10
    by (simp add: send_command_def Let_def format_X_def hex_nat.simps hex_char_def)
  have c1: "check_response [''VAR'', ''B1'', ''10''] ''VAR B1 5 0'' = Inr [''5'', ''0'']"
    by (simp add: check_response_def Let_def)
  have c2: "check_response [''VAR'', ''B1'', ''10''] ''VAR B1 5 1'' = Inr [''5'', ''1'']"
    by (simp add: check_response_def Let_def)
  have c3: "check_response [''VAR'', ''B1'', ''10''] ''5 0'' = Inr []"
    by (simp add: check_response_def Let_def startswith_def)
  have c4: "check_response [''VAR'', ''B1'', ''10''] ''5 1'' = Inr []"
    by (simp add: check_response_def Let_def startswith_def)
  have five: "py_int 10 ''5'' = Some 5"
    by code_simp
  show ?thesis
    using sc c1 c2 c3 c4 five
    by (auto simp add: get_setting_def Let_def simp del: join.simps)
qed


theorem get_setting_echo_witness:
  "fst (get_setting (CharaDevice_init (reply 0 ''VAR B1 5 0'')) 0 0x10) = Inr (Some 5)
   \<and> fst (get_setting (CharaDevice_init (reply 0 ''VAR B1 5 1'')) 0 0x10) = Inr None"
proof -
  obtain a1 a2 where a:
    "send_raw (CharaDevice_init (reply 0 ''VAR B1 5 0'')) ''VAR B1 10'' = (Inr (), a1)"
    "read_line a1 2 = (Inr (Some ''VAR B1 5 0''), a2)"
    using exchange_steps [of "CharaDevice_init (reply 0 ''VAR B1 5 0'')"
        "''VAR B1 10''" 0 "''VAR B1 5 0''" "[]" 2]
    by (auto simp: CharaDevice_init_def ascii_def isspace_def)
  obtain b1 b2 where b:
    "send_raw (CharaDevice_init (reply 0 ''VAR B1 5 1'')) ''VAR B1 10'' = (Inr (), b1)"
    "read_line b1 2 = (Inr (Some ''VAR B1 5 1''), b2)"
    using exchange_steps [of "CharaDevice_init (reply 0 ''VAR B1 5 1'')"
        "''VAR B1 10''" 0 "''VAR B1 5 1''" "[]" 2]
    by (auto simp: CharaDevice_init_def ascii_def isspace_def)
  from get_setting_echo [OF a] get_setting_echo [OF b] show ?thesis
    by simp
qed

text \<open>
  The reply line \<^verbatim>\<open>5 0\<close> does not start with \<^verbatim>\<open>VAR\<close>: \<^verbatim>\<open>send_command\<close> gives
  the empty list and \<^verbatim>\<open>get_setting\<close> none.
\<close>

theorem get_setting_bare_reply_counterexample:
  "fst (get_setting (CharaDevice_init (reply 0 ''5 0'')) 0 0x10) = Inr None
   \<and> written (serial (snd (get_setting (CharaDevice_init (reply 0 ''5 0'')) 0 0x10)))
       = ''VAR B1 10'' @ [CHR 0x0D, CHR 0x0A]"
proof -
  have "send_command (CharaDevice_init (reply 0 ''5 0'')) [''VAR'', ''B1'', ''10''] 2
      = (check_response [''VAR'', ''B1'', ''10''] ''5 0'',
         (CharaDevice_init (reply 0 ''5 0''))\<lparr>serial :=
            (serial (CharaDevice_init (reply 0 ''5 0'')))\<lparr>wire := [],
              written := written (serial (CharaDevice_init (reply 0 ''5 0'')))
                 @ join [''VAR'', ''B1'', ''10''] @ [CHR 0x0D, CHR 0x0A]\<rparr>\<rparr>)"
    by (rule send_command_reply [where t = 0])
       (simp_all add: CharaDevice_init_def ascii_def isspace_def)
  moreover have "check_response [''VAR'', ''B1'', ''10''] ''5 0'' = Inr []"
    by (simp add: check_response_def Let_def startswith_def)
  moreover have "format_X (0x10 + 0 * 0x100) = ''10''"
    by (simp add: format_X_def hex_nat.simps hex_char_def)
  ultimately show ?thesis
    by (simp add: get_setting_def Let_def CharaDevice_init_def)
qed

section \<open>The key query\<close>

lemma send_raw_timeout:
  "send_raw (self\<lparr>serial := (serial self)\<lparr>timeout := a\<rparr>\<rparr>) command =
     (fst (send_raw self command),
      (snd (send_raw self command))\<lparr>serial :=
         (serial (snd (send_raw self command)))\<lparr>timeout := a\<rparr>\<rparr>)"
  by (simp add: send_raw_def Let_def)

lemma read_line_timeout:
  "read_line (self\<lparr>serial := (serial self)\<lparr>timeout := a\<rparr>\<rparr>) tmo =
     (fst (read_line self tmo),
      (snd (read_line self tmo))\<lparr>serial := (serial (snd (read_line self tmo)))\<lparr>timeout := a\<rparr>\<rparr>)"
  by (simp add: read_line_def Let_def split: prod.splits)

lemma query_key_refused:
  "bad_timeout tmo \<Longrightarrow>
   query_key self tmo = (Inl ValueError, self\<lparr>serial := (serial self)\<lparr>timeout := Some 2\<rparr>\<rparr>)"
  by (simp add: query_key_def)

lemma query_key_window:
  "\<not> bad_timeout tmo \<Longrightarrow> query_key self tmo =
     (case send_raw self ''QRY KEY'' of
        (Inl e, self1) \<Rightarrow> (Inl e, self1\<lparr>serial := (serial self1)\<lparr>timeout := Some 2\<rparr>\<rparr>)
      | (Inr u, self1) \<Rightarrow>
          (case read_line self1 (read_window tmo) of
             (Inl e, self2) \<Rightarrow> (Inl e, self2\<lparr>serial := (serial self2)\<lparr>timeout := Some 2\<rparr>\<rparr>)
           | (Inr response, self2) \<Rightarrow>
               (Inr (key_of_response response),
                self2\<lparr>serial := (serial self2)\<lparr>timeout := Some 2\<rparr>\<rparr>)))"
  unfolding query_key_def Let_def send_raw_timeout
  by (cases "send_raw self ''QRY KEY''"; cases "fst (send_raw self ''QRY KEY'')")
     (auto simp: read_line_timeout split: prod.splits sum.splits)

lemma read_loop_idle:
  "\<forall>t\<in>set ts. t - start < tmo \<Longrightarrow>
   read_loop start tmo buffer (map (\<lambda>t. (t, Idle)) ts @ w) = read_loop start tmo buffer w"
  by (induction ts) simp_all


text \<open>
  C4: without a timeout argument \<^verbatim>\<open>query_key\<close> sets the port's own timeout to
  \<^verbatim>\<open>None\<close>, but it reads the line with \<^verbatim>\<open>_read_line(10.0)\<close>, and the polling loop
  of \<^verbatim>\<open>_read_line\<close> never blocks in the port. When nothing is waiting for ten seconds the
  call returns none, and a line that arrives in the eleventh second stays unread.
\<close>

theorem query_key_gives_up_after_ten_seconds:
  "fst (query_key (CharaDevice_init ((0, Idle) # (10, Idle) # reply 11 ''QRY KEY 5'')) None)
     = Inr None
   \<and> wire (serial (snd (query_key
         (CharaDevice_init ((0, Idle) # (10, Idle) # reply 11 ''QRY KEY 5'')) None)))
     = (10, Idle) # reply 11 ''QRY KEY 5''"
  by (simp add: query_key_window bad_timeout_def send_raw_def read_line_def read_window_def
      CharaDevice_init_def Let_def ascii_def key_of_response_def)

text \<open>
  In general the call without a timeout is the call with a timeout of ten seconds, and the
  port's timeout is 2 after every call.
\<close>

lemma query_key_ten_second_window:
  "query_key self None = query_key self (Some 10)
   \<and> timeout (serial (snd (query_key self tmo))) = Some 2
   \<and> (is_open (serial self)
        \<and> wire (serial self) = (t0, Idle) # map (\<lambda>t. (t, Idle)) ts @ (now, p) # w
        \<and> (\<forall>t\<in>set ts. t - t0 < 10) \<and> \<not> (now - t0 < 10)
      \<longrightarrow> fst (query_key self None) = Inr None
          \<and> wire (serial (snd (query_key self None))) = (now, p) # w)"
proof -
  have rw: "read_window None = read_window (Some 10)"
    by (simp add: read_window_def)
  have n1: "\<not> bad_timeout None" and n2: "\<not> bad_timeout (Some 10)"
    by (simp_all add: bad_timeout_def)
  have a: "query_key self None = query_key self (Some 10)"
    unfolding query_key_window [OF n1] query_key_window [OF n2] rw by (rule refl)
  have b: "timeout (serial (snd (query_key self tmo))) = Some 2"
    by (cases "bad_timeout tmo")
       (simp_all add: query_key_window query_key_refused split: prod.splits sum.splits)
  have c: "fst (query_key self None) = Inr None
          \<and> wire (serial (snd (query_key self None))) = (now, p) # w"
    if h: "is_open (serial self)"
      "wire (serial self) = (t0, Idle) # map (\<lambda>t. (t, Idle)) ts @ (now, p) # w"
      "\<forall>t\<in>set ts. t - t0 < 10" "\<not> (now - t0 < 10)"
  proof -
    have "read_loop t0 10 [] (map (\<lambda>t. (t, Idle)) ts @ (now, p) # w)
        = read_loop t0 10 [] ((now, p) # w)"
      using h(3) by (rule read_loop_idle)
    then have "read_loop t0 10 [] ((t0, Idle) # map (\<lambda>t. (t, Idle)) ts @ (now, p) # w)
        = (Inr None, (now, p) # w)"
      using h(4) by simp
    then show ?thesis
      using h(1,2)
      by (simp add: query_key_window bad_timeout_def send_raw_def read_line_def read_window_def
          Let_def ascii_def key_of_response_def)
  qed
  from a b c show ?thesis by blast
qed

lemma query_key_ten_second_window_example:
  "is_open (serial (CharaDevice_init ((0, Idle) # map (\<lambda>t. (t, Idle)) [3, 7]
        @ (12, Byte (CHR ''Q'')) # reply 12 ''RY KEY 5'')))
   \<and> (\<forall>t\<in>set [3, 7 :: real]. t - 0 < 10) \<and> \<not> ((12 :: real) - 0 < 10)
   \<and> fst (query_key (CharaDevice_init ((0, Idle) # map (\<lambda>t. (t, Idle)) [3, 7]
        @ (12, Byte (CHR ''Q'')) # reply 12 ''RY KEY 5'')) None) = Inr None
   \<and> wire (serial (snd (query_key (CharaDevice_init ((0, Idle) # map (\<lambda>t. (t, Idle)) [3, 7]
        @ (12, Byte (CHR ''Q'')) # reply 12 ''RY KEY 5'')) None)))
       = (12, Byte (CHR ''Q'')) # reply 12 ''RY KEY 5''"
proof -
  let ?D = "CharaDevice_init ((0, Idle) # map (\<lambda>t. (t, Idle)) [3, 7]
        @ (12, Byte (CHR ''Q'')) # reply 12 ''RY KEY 5'')"
  have h1: "is_open (serial ?D)" by (simp add: CharaDevice_init_def)
  have h2: "wire (serial ?D) = (0, Idle) # map (\<lambda>t. (t, Idle)) [3, 7]
        @ (12, Byte (CHR ''Q'')) # reply 12 ''RY KEY 5''"
    by (simp add: CharaDevice_init_def)
  have h3: "\<forall>t\<in>set [3, 7 :: real]. t - 0 < 10" by simp
  have h4: "\<not> ((12 :: real) - 0 < 10)" by simp
  from query_key_ten_second_window
    [of ?D None 0 "[3, 7]" 12 "Byte (CHR ''Q'')" "reply 12 ''RY KEY 5''"]
    h1 h2 h3 h4
  show ?thesis by blast
qed


section \<open>The handshake\<close>

lemma send_command_fields:
  "version (snd (send_command self cp tmo)) = version self
   \<and> company (snd (send_command self cp tmo)) = company self
   \<and> device (snd (send_command self cp tmo)) = device self
   \<and> chipset (snd (send_command self cp tmo)) = chipset self
   \<and> key_count (snd (send_command self cp tmo)) = key_count self
   \<and> layer_count (snd (send_command self cp tmo)) = layer_count self
   \<and> profile_count (snd (send_command self cp tmo)) = profile_count self"
  by (simp add: send_command_def send_raw_def read_line_def Let_def
      split: prod.splits sum.splits option.splits)

lemma set_identity_fields:
  "company (set_identity self ri) = Some (ri ! 0)
   \<and> device (set_identity self ri) = Some (ri ! 1)
   \<and> chipset (set_identity self ri) = Some (ri ! 2)
   \<and> key_count (set_identity self ri) \<noteq> None
   \<and> version (set_identity self ri) = version self"
  by (simp add: set_identity_def Let_def)

lemma init_unfold:
  assumes "send_command self [''VERSION''] 2 = (r1, self1)"
    and "self2 = (case r1 of Inl e \<Rightarrow> self1
                  | Inr rv \<Rightarrow> if rv \<noteq> [] then self1\<lparr>version := Some (join rv)\<rparr> else self1)"
    and "send_command self2 [''ID''] 2 = (r2, self3)"
  shows "init self =
     (case r1 of Inl e \<Rightarrow> (False, self1)
      | Inr rv \<Rightarrow>
         (case r2 of Inl e \<Rightarrow> (False, self3)
          | Inr ri \<Rightarrow> if 3 \<le> length ri then (True, set_identity self3 ri) else (True, self3)))"
  using assms by (auto simp: init_def Let_def split: sum.splits)


text \<open>
  C1, as amended: \<^verbatim>\<open>init()\<close> returns false exactly when one of its two commands raises
  in the transport; a step that yields no tokens does not make it return false. When the
  VERSION step yields no tokens the version field keeps its value. When a step raises, or
  the ID step yields fewer than three tokens, the fields company, device, chipset,
  key_count, layer_count and profile_count keep their values.
\<close>

theorem init_true_without_exception:
  assumes "send_command self [''VERSION''] 2 = (r1, self1)"
    and "self2 = (case r1 of Inl e \<Rightarrow> self1
                  | Inr rv \<Rightarrow> if rv \<noteq> [] then self1\<lparr>version := Some (join rv)\<rparr> else self1)"
    and "send_command self2 [''ID''] 2 = (r2, self3)"
  shows "fst (init self) = (\<not> isl r1 \<and> \<not> isl r2)
     \<and> (r1 = Inr [] \<longrightarrow> version (snd (init self)) = version self)
     \<and> (isl r1 \<or> isl r2 \<or> (\<exists>ri. r2 = Inr ri \<and> length ri < 3) \<longrightarrow>
          company (snd (init self)) = company self
          \<and> device (snd (init self)) = device self
          \<and> chipset (snd (init self)) = chipset self
          \<and> key_count (snd (init self)) = key_count self
          \<and> layer_count (snd (init self)) = layer_count self
          \<and> profile_count (snd (init self)) = profile_count self)"
proof -
  note u = init_unfold [OF assms]
  have s1: "self1 = snd (send_command self [''VERSION''] 2)" using assms(1) by simp
  have s3: "self3 = snd (send_command self2 [''ID''] 2)" using assms(3) by simp
  note f1 = send_command_fields [of self "[''VERSION'']" 2, folded s1]
  note f3 = send_command_fields [of self2 "[''ID'']" 2, folded s3]
  have a: "fst (init self) = (\<not> isl r1 \<and> \<not> isl r2)"
    unfolding u by (cases r1; cases r2) simp_all
  have b: "r1 = Inr [] \<longrightarrow> version (snd (init self)) = version self"
    unfolding u using f1 f3 assms(2)
    by (cases r2) (auto simp: set_identity_fields)
  have c: "isl r1 \<or> isl r2 \<or> (\<exists>ri. r2 = Inr ri \<and> length ri < 3) \<longrightarrow>
          company (snd (init self)) = company self
          \<and> device (snd (init self)) = device self
          \<and> chipset (snd (init self)) = chipset self
          \<and> key_count (snd (init self)) = key_count self
          \<and> layer_count (snd (init self)) = layer_count self
          \<and> profile_count (snd (init self)) = profile_count self"
    unfolding u using f1 f3 assms(2)
    by (cases r1; cases r2) auto
  from a b c show ?thesis by blast
qed

lemma version_gte_by_field:
  "version self = Some v \<Longrightarrow> version_gte self target = version_gte (with_version v) target"
  by (simp add: version_gte_def with_version_def)

lemma version_gte_same_version:
  "version a = version b \<Longrightarrow> version_gte a target = version_gte b target"
  by (simp add: version_gte_def)

lemma set_identity_all:
  "company (set_identity self ri) = Some (ri ! 0)
   \<and> device (set_identity self ri) = Some (ri ! 1)
   \<and> chipset (set_identity self ri) = Some (ri ! 2)
   \<and> key_count (set_identity self ri) = Some (case key_counts (ri ! 1) of None \<Rightarrow> 90 | Some k \<Rightarrow> k)
   \<and> version (set_identity self ri) = version self
   \<and> profile_count (set_identity self ri) =
       (if truthy (version self) \<and> version_gte self ''2.2.0-beta.4''
        then (if ri ! 2 = ''M0'' then 2 else 3) else profile_count self)
   \<and> layer_count (set_identity self ri) =
       (if truthy (version self) \<and> version_gte self ''2.2.0-beta.20''
        then (if ri ! 2 = ''M0'' then 3 else 4) else layer_count self)"
  by (simp add: set_identity_def Let_def version_gte_def)

text \<open>
  C2, as amended: a run of \<^verbatim>\<open>init()\<close> sets the version field to the tokens of the
  VERSION step, joined by blanks, whenever that step yields tokens, and leaves it as it was
  otherwise, whatever the ID step does. It sets company, device, chipset and key_count
  together, from the first three tokens of the ID reply and the table of key counts (90
  for a device the table does not have), exactly when neither step raises and the ID step
  yields at least three tokens; in such a run profile_count becomes 2 (chipset
  \<^verbatim>\<open>M0\<close>) or 3 when the version then held is at least \<^verbatim>\<open>2.2.0-beta.4\<close>, and
  layer_count 3 (\<^verbatim>\<open>M0\<close>) or 4 when it is at least \<^verbatim>\<open>2.2.0-beta.20\<close>, and each
  keeps its value otherwise. In every other run these six fields keep the values they had
  before the run.
\<close>

theorem init_sets_fields:
  assumes "send_command self [''VERSION''] 2 = (r1, self1)"
    and "self2 = (case r1 of Inl e \<Rightarrow> self1
                  | Inr rv \<Rightarrow> if rv \<noteq> [] then self1\<lparr>version := Some (join rv)\<rparr> else self1)"
    and "send_command self2 [''ID''] 2 = (r2, self3)"
    and "s' = snd (init self)"
  shows "version s' = (case r1 of Inl e \<Rightarrow> version self
                       | Inr rv \<Rightarrow> if rv \<noteq> [] then Some (join rv) else version self)
     \<and> (\<forall>rv ri. r1 = Inr rv \<and> r2 = Inr ri \<and> 3 \<le> length ri \<longrightarrow>
          company s' = Some (ri ! 0)
          \<and> device s' = Some (ri ! 1)
          \<and> chipset s' = Some (ri ! 2)
          \<and> key_count s' = Some (case key_counts (ri ! 1) of None \<Rightarrow> 90 | Some k \<Rightarrow> k)
          \<and> profile_count s' =
              (if truthy (version s') \<and> version_gte s' ''2.2.0-beta.4''
               then (if ri ! 2 = ''M0'' then 2 else 3) else profile_count self)
          \<and> layer_count s' =
              (if truthy (version s') \<and> version_gte s' ''2.2.0-beta.20''
               then (if ri ! 2 = ''M0'' then 3 else 4) else layer_count self))
     \<and> (isl r1 \<or> isl r2 \<or> (\<exists>ri. r2 = Inr ri \<and> length ri < 3) \<longrightarrow>
          company s' = company self
          \<and> device s' = device self
          \<and> chipset s' = chipset self
          \<and> key_count s' = key_count self
          \<and> layer_count s' = layer_count self
          \<and> profile_count s' = profile_count self)
     \<and> map key_counts [''ONE'', ''TWO'', ''LITE'', ''X'', ''ENGINE'', ''M4G'', ''M4GR'',
           ''T4G'', ''ZERO'', ''OTHER'']
         = [Some 90, Some 90, Some 67, Some 256, Some 256, Some 90, Some 90, Some 7,
            Some 256, None]"
proof -
  note u = init_unfold [OF assms(1-3)]
  have s1: "self1 = snd (send_command self [''VERSION''] 2)" using assms(1) by simp
  have s3: "self3 = snd (send_command self2 [''ID''] 2)" using assms(3) by simp
  note f1 = send_command_fields [of self "[''VERSION'']" 2, folded s1]
  note f3 = send_command_fields [of self2 "[''ID'']" 2, folded s3]
  have v2: "version self2 = (case r1 of Inl e \<Rightarrow> version self
                       | Inr rv \<Rightarrow> if rv \<noteq> [] then Some (join rv) else version self)"
    using f1 assms(2) by (cases r1) auto
  have o2: "company self2 = company self \<and> device self2 = device self
      \<and> chipset self2 = chipset self \<and> key_count self2 = key_count self
      \<and> layer_count self2 = layer_count self \<and> profile_count self2 = profile_count self"
    using f1 assms(2) by (cases r1) auto
  have v3: "version self3 = version self2" using f3 by simp
  have a: "version s' = (case r1 of Inl e \<Rightarrow> version self
                       | Inr rv \<Rightarrow> if rv \<noteq> [] then Some (join rv) else version self)"
    unfolding assms(4) u using v2 v3 f1 assms(2)
    by (cases r1; cases r2) (auto simp: set_identity_all)
  have b: "company s' = Some (ri ! 0)
          \<and> device s' = Some (ri ! 1)
          \<and> chipset s' = Some (ri ! 2)
          \<and> key_count s' = Some (case key_counts (ri ! 1) of None \<Rightarrow> 90 | Some k \<Rightarrow> k)
          \<and> profile_count s' =
              (if truthy (version s') \<and> version_gte s' ''2.2.0-beta.4''
               then (if ri ! 2 = ''M0'' then 2 else 3) else profile_count self)
          \<and> layer_count s' =
              (if truthy (version s') \<and> version_gte s' ''2.2.0-beta.20''
               then (if ri ! 2 = ''M0'' then 3 else 4) else layer_count self)"
    if h: "r1 = Inr rv" "r2 = Inr ri" "3 \<le> length ri" for rv ri
  proof -
    have e: "s' = set_identity self3 ri"
      unfolding assms(4) u using h by simp
    have vs: "version s' = version self3"
      unfolding e by (simp add: set_identity_all)
    note g = version_gte_same_version [OF vs]
    have p: "profile_count self3 = profile_count self" "layer_count self3 = layer_count self"
      using f3 o2 by simp_all
    show ?thesis
      unfolding g vs unfolding e using p by (simp add: set_identity_all)
  qed
  have c: "isl r1 \<or> isl r2 \<or> (\<exists>ri. r2 = Inr ri \<and> length ri < 3) \<longrightarrow>
          company s' = company self
          \<and> device s' = device self
          \<and> chipset s' = chipset self
          \<and> key_count s' = key_count self
          \<and> layer_count s' = layer_count self
          \<and> profile_count s' = profile_count self"
    unfolding assms(4) u using f1 f3 o2
    by (cases r1; cases r2) auto
  have d: "map key_counts [''ONE'', ''TWO'', ''LITE'', ''X'', ''ENGINE'', ''M4G'', ''M4GR'',
           ''T4G'', ''ZERO'', ''OTHER'']
         = [Some 90, Some 90, Some 67, Some 256, Some 256, Some 90, Some 90, Some 7,
            Some 256, None]"
    by (simp add: key_counts_def)
  from a b c d show ?thesis by blast
qed

subsection \<open>Handshakes on given wires\<close>

text \<open>
  On a wire where nothing arrives both steps yield no tokens, and \<^verbatim>\<open>init()\<close> returns
  true.
\<close>

theorem init_silent_counterexample:
  "fst (init (CharaDevice_init [])) = True
   \<and> fst (send_command (CharaDevice_init []) [''VERSION''] 2) = Inr []"
proof -
  let ?D = "CharaDevice_init []"
  let ?D1 = "?D\<lparr>serial := (serial ?D)\<lparr>written :=
       written (serial ?D) @ join [''VERSION''] @ [CHR 0x0D, CHR 0x0A]\<rparr>\<rparr>"
  let ?D2 = "?D1\<lparr>serial := (serial ?D1)\<lparr>written :=
       written (serial ?D1) @ join [''ID''] @ [CHR 0x0D, CHR 0x0A]\<rparr>\<rparr>"
  have 1: "send_command ?D [''VERSION''] 2 = (Inr [], ?D1)"
    by (rule send_command_silent) (simp_all add: CharaDevice_init_def ascii_def)
  have 2: "send_command ?D1 [''ID''] 2 = (Inr [], ?D2)"
    by (rule send_command_silent) (simp_all add: CharaDevice_init_def ascii_def)
  have "init ?D = (True, ?D2)"
    using init_unfold [OF 1 _ 2] by simp
  with 1 show ?thesis by simp
qed


theorem init_true_without_exception_witness:
  "isl (Inl PortNotOpenError :: py_error + string list)
   \<and> fst (init ((CharaDevice_init [])\<lparr>serial :=
          (serial (CharaDevice_init []))\<lparr>is_open := False\<rparr>\<rparr>)) = False
   \<and> company (snd (init ((CharaDevice_init [])\<lparr>serial :=
          (serial (CharaDevice_init []))\<lparr>is_open := False\<rparr>\<rparr>))) = None"
proof -
  let ?D = "(CharaDevice_init [])\<lparr>serial := (serial (CharaDevice_init []))\<lparr>is_open := False\<rparr>\<rparr>"
  have 1: "send_command ?D [''VERSION''] 2 = (Inl PortNotOpenError, ?D)"
    by (simp add: send_command_def send_raw_def Let_def ascii_def CharaDevice_init_def)
  have 2: "send_command ?D [''ID''] 2 = (Inl PortNotOpenError, ?D)"
    by (simp add: send_command_def send_raw_def Let_def ascii_def CharaDevice_init_def)
  have m: "?D = (case (Inl PortNotOpenError :: py_error + string list) of Inl e \<Rightarrow> ?D
                  | Inr rv \<Rightarrow> if rv \<noteq> [] then ?D\<lparr>version := Some (join rv)\<rparr> else ?D)"
    by simp
  have c: "company ?D = None" by (simp add: CharaDevice_init_def)
  from init_true_without_exception [OF 1 m 2] c show ?thesis
    by simp
qed

text \<open>
  When the VERSION step is answered and the ID step is not, the version is set and the
  identity fields are not.
\<close>

theorem init_version_only_counterexample:
  "fst (init (CharaDevice_init (reply 0 ''VERSION 2.2.0-beta.20''))) = True
   \<and> version (snd (init (CharaDevice_init (reply 0 ''VERSION 2.2.0-beta.20''))))
       = Some ''2.2.0-beta.20''
   \<and> company (snd (init (CharaDevice_init (reply 0 ''VERSION 2.2.0-beta.20'')))) = None
   \<and> device (snd (init (CharaDevice_init (reply 0 ''VERSION 2.2.0-beta.20'')))) = None
   \<and> chipset (snd (init (CharaDevice_init (reply 0 ''VERSION 2.2.0-beta.20'')))) = None
   \<and> key_count (snd (init (CharaDevice_init (reply 0 ''VERSION 2.2.0-beta.20'')))) = None"
proof -
  let ?D = "CharaDevice_init (reply 0 ''VERSION 2.2.0-beta.20'')"
  let ?D1 = "?D\<lparr>serial := (serial ?D)\<lparr>wire := [], written :=
       written (serial ?D) @ join [''VERSION''] @ [CHR 0x0D, CHR 0x0A]\<rparr>\<rparr>"
  let ?D2 = "?D1\<lparr>version := Some (join [''2.2.0-beta.20''])\<rparr>"
  let ?D3 = "?D2\<lparr>serial := (serial ?D2)\<lparr>written :=
       written (serial ?D2) @ join [''ID''] @ [CHR 0x0D, CHR 0x0A]\<rparr>\<rparr>"
  have "send_command ?D [''VERSION''] 2
      = (check_response [''VERSION''] ''VERSION 2.2.0-beta.20'', ?D1)"
    by (rule send_command_reply [where t = 0])
       (simp_all add: CharaDevice_init_def ascii_def isspace_def)
  moreover have "check_response [''VERSION''] ''VERSION 2.2.0-beta.20'' = Inr [''2.2.0-beta.20'']"
    by (simp add: check_response_def Let_def)
  ultimately have 1: "send_command ?D [''VERSION''] 2 = (Inr [''2.2.0-beta.20''], ?D1)"
    by simp
  have 2: "send_command ?D2 [''ID''] 2 = (Inr [], ?D3)"
    by (rule send_command_silent) (simp_all add: CharaDevice_init_def ascii_def)
  have "init ?D = (True, ?D3)"
    using init_unfold [OF 1 _ 2] by simp
  then show ?thesis
    by (simp add: CharaDevice_init_def)
qed


theorem init_sets_fields_witness:
  "version (snd (init (CharaDevice_init
       (reply 0 ''VERSION 2.2.0-beta.20'' @ reply 0 ''ID CHARACHORDER ONE M0''))))
       = Some ''2.2.0-beta.20''
   \<and> company (snd (init (CharaDevice_init
       (reply 0 ''VERSION 2.2.0-beta.20'' @ reply 0 ''ID CHARACHORDER ONE M0''))))
       = Some ''CHARACHORDER''
   \<and> device (snd (init (CharaDevice_init
       (reply 0 ''VERSION 2.2.0-beta.20'' @ reply 0 ''ID CHARACHORDER ONE M0''))))
       = Some ''ONE''
   \<and> chipset (snd (init (CharaDevice_init
       (reply 0 ''VERSION 2.2.0-beta.20'' @ reply 0 ''ID CHARACHORDER ONE M0''))))
       = Some ''M0''
   \<and> key_count (snd (init (CharaDevice_init
       (reply 0 ''VERSION 2.2.0-beta.20'' @ reply 0 ''ID CHARACHORDER ONE M0'')))) = Some 90
   \<and> profile_count (snd (init (CharaDevice_init
       (reply 0 ''VERSION 2.2.0-beta.20'' @ reply 0 ''ID CHARACHORDER ONE M0'')))) = 2
   \<and> layer_count (snd (init (CharaDevice_init
       (reply 0 ''VERSION 2.2.0-beta.20'' @ reply 0 ''ID CHARACHORDER ONE M0'')))) = 3"
proof -
  let ?D = "CharaDevice_init
       (reply 0 ''VERSION 2.2.0-beta.20'' @ reply 0 ''ID CHARACHORDER ONE M0'')"
  let ?D1 = "?D\<lparr>serial := (serial ?D)\<lparr>wire := reply 0 ''ID CHARACHORDER ONE M0'', written :=
       written (serial ?D) @ join [''VERSION''] @ [CHR 0x0D, CHR 0x0A]\<rparr>\<rparr>"
  let ?D2 = "?D1\<lparr>version := Some (join [''2.2.0-beta.20''])\<rparr>"
  let ?D3 = "?D2\<lparr>serial := (serial ?D2)\<lparr>wire := [], written :=
       written (serial ?D2) @ join [''ID''] @ [CHR 0x0D, CHR 0x0A]\<rparr>\<rparr>"
  have "send_command ?D [''VERSION''] 2
      = (check_response [''VERSION''] ''VERSION 2.2.0-beta.20'', ?D1)"
    by (rule send_command_reply [where t = 0])
       (simp_all add: CharaDevice_init_def ascii_def isspace_def)
  moreover have "check_response [''VERSION''] ''VERSION 2.2.0-beta.20'' = Inr [''2.2.0-beta.20'']"
    by (simp add: check_response_def Let_def)
  ultimately have 1: "send_command ?D [''VERSION''] 2 = (Inr [''2.2.0-beta.20''], ?D1)"
    by simp
  have "send_command ?D2 [''ID''] 2 = (check_response [''ID''] ''ID CHARACHORDER ONE M0'', ?D3)"
    by (rule send_command_reply [where t = 0 and w = "[]"])
       (simp_all add: CharaDevice_init_def ascii_def isspace_def)
  moreover have "check_response [''ID''] ''ID CHARACHORDER ONE M0''
      = Inr [''CHARACHORDER'', ''ONE'', ''M0'']"
    by (simp add: check_response_def Let_def)
  ultimately have 2: "send_command ?D2 [''ID''] 2 = (Inr [''CHARACHORDER'', ''ONE'', ''M0''], ?D3)"
    by simp
  have m: "?D2 = (case (Inr [''2.2.0-beta.20''] :: py_error + string list) of Inl e \<Rightarrow> ?D1
       | Inr rv \<Rightarrow> if rv \<noteq> [] then ?D1\<lparr>version := Some (join rv)\<rparr> else ?D1)"
    by simp
  note t = init_sets_fields [OF 1 m 2 refl]
  from t have v: "version (snd (init ?D)) = Some ''2.2.0-beta.20''"
    by simp
  have g1: "version_gte (snd (init ?D)) ''2.2.0-beta.4''"
    unfolding version_gte_by_field [OF v] by code_simp
  have g2: "version_gte (snd (init ?D)) ''2.2.0-beta.20''"
    unfolding version_gte_by_field [OF v] by code_simp
  have k: "key_counts ''ONE'' = Some 90" by (simp add: key_counts_def)
  from t have "company (snd (init ?D)) = Some ([''CHARACHORDER'', ''ONE'', ''M0''] ! 0)
          \<and> device (snd (init ?D)) = Some ([''CHARACHORDER'', ''ONE'', ''M0''] ! 1)
          \<and> chipset (snd (init ?D)) = Some ([''CHARACHORDER'', ''ONE'', ''M0''] ! 2)
          \<and> key_count (snd (init ?D))
              = Some (case key_counts ([''CHARACHORDER'', ''ONE'', ''M0''] ! 1) of
                        None \<Rightarrow> 90 | Some k \<Rightarrow> k)
          \<and> profile_count (snd (init ?D)) =
              (if truthy (version (snd (init ?D))) \<and> version_gte (snd (init ?D)) ''2.2.0-beta.4''
               then (if [''CHARACHORDER'', ''ONE'', ''M0''] ! 2 = ''M0'' then 2 else 3)
               else profile_count ?D)
          \<and> layer_count (snd (init ?D)) =
              (if truthy (version (snd (init ?D))) \<and> version_gte (snd (init ?D)) ''2.2.0-beta.20''
               then (if [''CHARACHORDER'', ''ONE'', ''M0''] ! 2 = ''M0'' then 3 else 4)
               else layer_count ?D)"
    by simp
  with v g1 g2 k show ?thesis
    by (simp add: truthy_def)
qed

end
